theory Spec2Isabelle
  imports Main
begin

section \<open>Python values printed as text\<close>

text \<open>
  \<open>str(n)\<close> of a Python integer is its decimal numeral, with a leading minus sign for a
  negative one.
\<close>

definition digit_char :: "nat \<Rightarrow> char" where
  "digit_char d = ''0123456789'' ! d"

function str_nat :: "nat \<Rightarrow> string" where
  "str_nat n = (if n < 10 then [digit_char n] else str_nat (n div 10) @ [digit_char (n mod 10)])"
  by pat_completeness auto
termination
  by (relation "measure (\<lambda>n. n)") auto

declare str_nat.simps [simp del]

definition str_int :: "int \<Rightarrow> string" where
  "str_int i = (if i < 0 then CHR ''-'' # str_nat (nat (- i)) else str_nat (nat i))"

text \<open>
  Turning an integer into its decimal numeral, and a numeral into an integer, raises an
  error beyond 4300 digits.
\<close>

definition max_str_digits :: nat where
  "max_str_digits = 4300"

definition str_ok :: "int \<Rightarrow> bool" where
  "str_ok i \<longleftrightarrow> length (str_nat (nat \<bar>i\<bar>)) \<le> max_str_digits"

section \<open>Python text: characters, whitespace, splitting, joining\<close>

text \<open>
  A Python text is a list of Unicode code points. \<open>u\<close> turns a text of the theory, whose
  characters are the code points below 256, into one. A code point that UTF-8 can encode
  is a scalar value: not a surrogate, and below \<open>0x110000\<close>.
\<close>

type_synonym utext = "nat list"

definition u :: "string \<Rightarrow> utext" where
  "u s = map of_char s"

definition scalar :: "nat \<Rightarrow> bool" where
  "scalar c \<longleftrightarrow> c < 0xD800 \<or> (0xE000 \<le> c \<and> c < 0x110000)"

text \<open>
  The characters that \<open>str.strip\<close>, \<open>int\<close> and \<open>float\<close> take for whitespace: U+0009 to U+000D,
  U+001C to U+0020, U+0085, U+00A0, U+1680, U+2000 to U+200A, U+2028, U+2029, U+202F,
  U+205F and U+3000.
\<close>

definition is_space :: "nat \<Rightarrow> bool" where
  "is_space c \<longleftrightarrow>
     (0x09 \<le> c \<and> c \<le> 0x0D) \<or> (0x1C \<le> c \<and> c \<le> 0x20) \<or> c = 0x85 \<or> c = 0xA0
     \<or> c = 0x1680 \<or> (0x2000 \<le> c \<and> c \<le> 0x200A) \<or> c = 0x2028 \<or> c = 0x2029
     \<or> c = 0x202F \<or> c = 0x205F \<or> c = 0x3000"

definition strip :: "utext \<Rightarrow> utext" where
  "strip s = rev (dropWhile is_space (rev (dropWhile is_space s)))"

text \<open>\<open>sep.join(xs)\<close> and \<open>s.split(c)\<close> for a separator of one character.\<close>

fun join :: "'a list \<Rightarrow> 'a list list \<Rightarrow> 'a list" where
  "join sep [] = []"
| "join sep [x] = x"
| "join sep (x # y # xs) = x @ sep @ join sep (y # xs)"

fun split :: "'a \<Rightarrow> 'a list \<Rightarrow> 'a list list" where
  "split c [] = [[]]"
| "split c (x # xs) =
     (if x = c then [] # split c xs
      else case split c xs of
             [] \<Rightarrow> [[x]]
           | w # ws \<Rightarrow> (x # w) # ws)"

definition semicolon :: nat where
  "semicolon = 0x3B"

definition carriage_return :: nat where
  "carriage_return = 0x0D"

definition line_feed :: nat where
  "line_feed = 0x0A"

text \<open>
  Reading a text file opened without \<open>newline=''\<close> turns every carriage return, alone or
  before a line feed, into one line feed.
\<close>

fun universal_newlines :: "utext \<Rightarrow> utext" where
  "universal_newlines [] = []"
| "universal_newlines [c] = (if c = carriage_return then [line_feed] else [c])"
| "universal_newlines (c # d # cs) =
     (if c = carriage_return \<and> d = line_feed then line_feed # universal_newlines cs
      else if c = carriage_return then line_feed # universal_newlines (d # cs)
      else c # universal_newlines (d # cs))"

text \<open>
  A reader of decimal numerals in ASCII digits with an optional sign, whitespace around
  them dropped, and at most 4300 digits. On such texts it gives what Python's \<open>int\<close> gives.
\<close>

definition is_digit :: "nat \<Rightarrow> bool" where
  "is_digit c \<longleftrightarrow> 48 \<le> c \<and> c \<le> 57"

fun digits_value :: "nat \<Rightarrow> utext \<Rightarrow> nat option" where
  "digits_value acc [] = Some acc"
| "digits_value acc (c # cs) =
     (if is_digit c then digits_value (10 * acc + (c - 48)) cs else None)"

definition ascii_nat :: "utext \<Rightarrow> nat option" where
  "ascii_nat s = (if s = [] \<or> max_str_digits < length s then None else digits_value 0 s)"

definition ascii_int :: "utext \<Rightarrow> int option" where
  "ascii_int s =
     (case strip s of
        [] \<Rightarrow> None
      | c # cs \<Rightarrow>
          if c = 0x2D then map_option (\<lambda>n. - int n) (ascii_nat cs)
          else if c = 0x2B then map_option int (ascii_nat cs)
          else map_option int (ascii_nat (c # cs)))"

section \<open>Enrichment classifier: category of an image (src/src/yolo\_detect.py)\<close>

text \<open>
  A detection is the dictionary built in \<open>YOLODetector.detect_objects\<close>: the class id, the
  class name, the confidence and the bounding box. Confidences are Python floats; the type
  of confidences is left as a parameter \<open>'c\<close>.
\<close>

record 'c detection =
  class_id :: nat
  class_name :: string
  confidence :: 'c
  bbox :: "'c list"

definition medical_containers :: "string list" where
  "medical_containers = [''bottle'', ''cup'', ''bowl'']"

definition medical_tools :: "string list" where
  "medical_tools = [''scissors'', ''knife'']"

text \<open>
  \<open>YOLODetector.classify_image\<close>, branch by branch. \<open>any(cls in xs for cls in s)\<close> over the
  Python set \<open>s\<close> is an existential over the set of the detected class names.
\<close>

definition classify_image :: "'c detection list \<Rightarrow> string" where
  "classify_image detections =
     (if detections = [] then ''other''
      else
        let detected_classes = map class_name detections;
            detected_classes_set = set detected_classes;
            has_medical_container =
              (\<exists>cls \<in> detected_classes_set. cls \<in> set medical_containers);
            has_person = (''person'' \<in> detected_classes_set);
            has_medical_tool = (\<exists>cls \<in> detected_classes_set. cls \<in> set medical_tools)
        in
          if has_person \<and> has_medical_container then ''promotional''
          else if has_medical_container \<and> \<not> has_person then ''product_display''
          else if has_person \<and> \<not> has_medical_container then ''lifestyle''
          else if has_medical_tool then ''medical_tools''
          else ''other'')"

text \<open>
  The rule table as the specification words it, over a set of labels: the rules are tried
  from top to bottom and the first one that matches gives the category.
\<close>

definition container_labels :: "string set" where
  "container_labels = {''bottle'', ''cup'', ''bowl''}"

definition tool_labels :: "string set" where
  "tool_labels = {''scissors'', ''knife''}"

definition rule_table :: "((string set \<Rightarrow> bool) \<times> string) list" where
  "rule_table =
     [(\<lambda>L. L \<inter> container_labels \<noteq> {} \<and> ''person'' \<in> L, ''promotional''),
      (\<lambda>L. L \<inter> container_labels \<noteq> {} \<and> ''person'' \<notin> L, ''product_display''),
      (\<lambda>L. ''person'' \<in> L \<and> L \<inter> container_labels = {}, ''lifestyle''),
      (\<lambda>L. L \<inter> tool_labels \<noteq> {}, ''medical_tools'')]"

fun first_match :: "(('a \<Rightarrow> bool) \<times> string) list \<Rightarrow> 'a \<Rightarrow> string" where
  "first_match [] L = ''other''"
| "first_match ((p, c) # rules) L = (if p L then c else first_match rules L)"

definition detected_labels :: "'c detection list \<Rightarrow> string set" where
  "detected_labels detections = set (map class_name detections)"

section \<open>Orchestrator: the run report (src/pipeline.py)\<close>

text \<open>
  The payload a step hands to \<open>generate_report\<close> is a Python value: a string (the
  database step returns one), a dictionary, or something else. Only strings and
  dictionaries are looked into, so every other value is kept opaque. A dictionary is an
  association list; \<open>d.get(k, default)\<close> is \<open>dict_get\<close>.
\<close>

datatype 'a py = PStr string | PDict "(string \<times> 'a py) list" | POther 'a

definition dict_get :: "(string \<times> 'a py) list \<Rightarrow> string \<Rightarrow> 'a py \<Rightarrow> 'a py" where
  "dict_get d k dflt = (case map_of d k of None \<Rightarrow> dflt | Some v \<Rightarrow> v)"

record 'a step_entry =
  step :: nat
  status :: "'a py"
  timestamp :: "'a py"
  details :: "(string \<times> 'a py) list"

record 'a report =
  pipeline :: string
  execution_id :: string
  report_timestamp :: string
  total_steps :: nat
  successful_steps :: nat
  all_successful :: bool
  steps :: "'a step_entry list"
  summary :: string

text \<open>
  The loop over \<open>enumerate(args)\<close>: an argument that is a dictionary gives one step entry,
  numbered by its position among all arguments; any other argument gives none.
\<close>

definition collect_steps :: "'a py list \<Rightarrow> 'a step_entry list" where
  "collect_steps args =
     concat (map (\<lambda>(i, arg).
       case arg of
         PDict d \<Rightarrow>
           [\<lparr>step = i + 1,
             status = dict_get d ''status'' (PStr ''unknown''),
             timestamp = dict_get d ''timestamp'' (PStr ''''),
             details = filter (\<lambda>(k, v). k \<notin> set [''status'', ''timestamp'']) d\<rparr>]
       | _ \<Rightarrow> []) (enumerate 0 args))"

definition counted_successful :: "'a step_entry \<Rightarrow> bool" where
  "counted_successful s \<longleftrightarrow> status s \<in> set [PStr ''success'', PStr ''ready'', PStr ''skipped'']"

text \<open>
  Whether \<open>json.dump\<close> can write a value: strings and dictionaries with string keys it
  can, and of the other values those that \<open>json_ok\<close> admits. Of a step entry it writes the
  status, the timestamp and the details.
\<close>

primrec serialisable :: "('a \<Rightarrow> bool) \<Rightarrow> 'a py \<Rightarrow> bool" where
  "serialisable json_ok (PStr s) = True"
| "serialisable json_ok (PDict d) = list_all snd (map (map_prod id (serialisable json_ok)) d)"
| "serialisable json_ok (POther x) = json_ok x"

definition step_serialisable :: "('a \<Rightarrow> bool) \<Rightarrow> 'a step_entry \<Rightarrow> bool" where
  "step_serialisable json_ok s \<longleftrightarrow>
     serialisable json_ok (status s) \<and> serialisable json_ok (timestamp s)
     \<and> list_all (\<lambda>(k, v). serialisable json_ok v) (details s)"

datatype report_error = NotJsonSerialisable

text \<open>
  \<open>generate_report\<close>. The run id of the context and the reading of the clock are
  arguments. The report is built, written to its file with \<open>json.dump\<close> and returned;
  when \<open>json.dump\<close> cannot write a value of the report, it raises an error, which the
  function logs and raises again. Printing the summary changes nothing.
\<close>

definition generate_report ::
  "('a \<Rightarrow> bool) \<Rightarrow> string \<Rightarrow> string \<Rightarrow> 'a py list \<Rightarrow> report_error + 'a report" where
  "generate_report json_ok run_id now args =
     (let steps = collect_steps args;
          successful = filter counted_successful steps;
          report =
            \<lparr>pipeline = ''telegram_medical_warehouse'',
             execution_id = run_id,
             report_timestamp = now,
             total_steps = length steps,
             successful_steps = length successful,
             all_successful = (length successful = length steps),
             steps = steps,
             summary = ''Pipeline executed '' @ str_nat (length successful) @ ''/''
                       @ str_nat (length steps) @ '' steps successfully''\<rparr>
      in if list_all (step_serialisable json_ok) steps then Inr report
         else Inl NotJsonSerialisable)"

text \<open>
  The payloads that are aggregated, said without the loop: the dictionaries among the
  payloads, in their order, and the status of one, which is \<open>unknown\<close> when the dictionary
  has none.
\<close>

fun dict_payloads :: "'a py list \<Rightarrow> (string \<times> 'a py) list list" where
  "dict_payloads [] = []"
| "dict_payloads (PDict d # args) = d # dict_payloads args"
| "dict_payloads (PStr s # args) = dict_payloads args"
| "dict_payloads (POther x # args) = dict_payloads args"

definition payload_status :: "(string \<times> 'a py) list \<Rightarrow> 'a py" where
  "payload_status d = dict_get d ''status'' (PStr ''unknown'')"

section \<open>Orchestrator: the new-data sensor (src/pipeline.py)\<close>

text \<open>
  Times are naive local datetimes, counted in microseconds from 1970-01-01T00:00:00. The
  sensor's cursor is the text written by \<open>datetime.now().isoformat()\<close>, which
  \<open>datetime.fromisoformat\<close> reads back to the same datetime, so the cursor is kept as that
  datetime; \<open>None\<close> is a cursor never set (or empty), for which the sensor takes
  \<open>1970-01-01\<close>.

  The data directory is \<open>None\<close> when it does not exist; otherwise it is the list of the
  JSON files below it, each with its modification time.
\<close>

type_synonym json_file = "string \<times> int"

datatype sensor_result = RunRequest int | SkipReason string

definition last_run_time :: "int option \<Rightarrow> int" where
  "last_run_time cursor = (case cursor of None \<Rightarrow> 0 | Some t \<Rightarrow> t)"

text \<open>
  \<open>new_data_sensor\<close> returns the cursor it leaves behind and its result. \<open>now\<close> is the
  clock reading passed to \<open>update_cursor\<close>, \<open>key_time\<close> the later reading from which the run
  key is formatted; the run request is identified by that reading (its run configuration
  is a constant).
\<close>

definition new_data_sensor ::
  "int option \<Rightarrow> json_file list option \<Rightarrow> int \<Rightarrow> int \<Rightarrow> int option \<times> sensor_result" where
  "new_data_sensor cursor data_dir now key_time =
     (case data_dir of
        None \<Rightarrow> (cursor, SkipReason ''Data directory does not exist'')
      | Some files \<Rightarrow>
          let new_files = filter (\<lambda>(json_file, file_time). file_time > last_run_time cursor) files
          in if new_files \<noteq> [] then (Some now, RunRequest key_time)
             else (cursor, SkipReason ''No new data files found''))"

definition json_files_of :: "json_file list option \<Rightarrow> json_file list" where
  "json_files_of data_dir = (case data_dir of None \<Rightarrow> [] | Some files \<Rightarrow> files)"

definition run_requests :: "sensor_result \<Rightarrow> int list" where
  "run_requests r = (case r of RunRequest k \<Rightarrow> [k] | SkipReason _ \<Rightarrow> [])"

section \<open>Loader: raw messages into the warehouse (src/src/load\_to\_postgres.py)\<close>

subsection \<open>Message dictionaries\<close>

text \<open>
  A message is the dictionary the scraper writes to a JSON file and the loader reads back.
  A key of it is missing, holds JSON \<open>null\<close> (Python \<open>None\<close>), or holds a value of the type
  the scraper gives it. Texts are Python texts; timestamps (written as ISO text) are kept
  as the instants they denote, in microseconds. \<open>file_path\<close> and \<open>processed_at\<close> are the two
  keys the loader adds.
\<close>

datatype 'a field = Absent | Null | Val 'a

record message =
  message_id :: "int field"
  channel_name :: "utext field"
  message_date :: "int field"
  message_text :: "utext field"
  has_media :: "bool field"
  views :: "int field"
  forwards :: "int field"
  image_path :: "utext field"
  scraped_at :: "int field"
  file_path :: "utext field"
  processed_at :: "int field"

text \<open>\<open>d.get(k)\<close> and \<open>d.get(k, default)\<close>: the default stands in for a missing key only.\<close>

definition get :: "'a field \<Rightarrow> 'a option" where
  "get f = (case f of Absent \<Rightarrow> None | Null \<Rightarrow> None | Val v \<Rightarrow> Some v)"

definition get_default :: "'a field \<Rightarrow> 'a \<Rightarrow> 'a option" where
  "get_default f d = (case f of Absent \<Rightarrow> Some d | Null \<Rightarrow> None | Val v \<Rightarrow> Some v)"

subsection \<open>The table \<open>raw.telegram_messages\<close> and the upsert statement\<close>

text \<open>
  The tuple of the ten values bound to \<open>insert_sql\<close>, as \<open>prepare_batch_data\<close> builds it;
  \<open>None\<close> is SQL \<open>NULL\<close>. \<open>raw_data\<close> is \<open>json.dumps(msg)\<close>, stored as JSONB: the message
  itself.
\<close>

record insert_values =
  v_message_id :: "int option"
  v_channel_name :: "utext option"
  v_message_date :: "int option"
  v_message_text :: "utext option"
  v_has_media :: "bool option"
  v_image_path :: "utext option"
  v_views :: "int option"
  v_forwards :: "int option"
  v_scraped_at :: "int option"
  v_raw_data :: message

text \<open>
  A row of the table, column by column as \<open>create_table_sql\<close> declares them, but for the
  surrogate \<open>id\<close>, which no statement of the loader names. The three columns declared
  \<open>NOT NULL\<close> hold values; the others may be \<open>NULL\<close>.
\<close>

record table_row =
  col_message_id :: int
  col_channel_name :: utext
  col_message_date :: int
  col_message_text :: "utext option"
  col_has_media :: "bool option"
  col_image_path :: "utext option"
  col_views :: "int option"
  col_forwards :: "int option"
  col_scraped_at :: "int option"
  col_raw_data :: message
  col_created_at :: int

datatype load_error =
    NotNullViolation string
  | InvalidText string
  | StringTooLong string
  | NumericOutOfRange string
  | ValueError
  | ConnectionFailed

definition row_key :: "table_row \<Rightarrow> int \<times> utext" where
  "row_key r = (col_message_id r, col_channel_name r)"

text \<open>
  What happens to a proposed tuple before the table is looked at for a conflict. The
  client refuses a text that holds a NUL or a code point that UTF-8 cannot encode, and the
  server refuses such a text inside the JSON of \<open>raw_data\<close>. The server checks the ranges
  of \<open>BIGINT\<close> and \<open>INTEGER\<close>. A text for a \<open>VARCHAR(n)\<close> column that is longer than \<open>n\<close>
  characters is cut to \<open>n\<close> characters when what is cut off is blanks only, and refused
  otherwise. Last, the three \<open>NOT NULL\<close> columns must hold a value. A tuple that is
  refused raises an error in the client; otherwise the tuple goes on as the server has
  coerced it.
\<close>

definition in_range :: "nat \<Rightarrow> int option \<Rightarrow> bool" where
  "in_range bits x = (case x of None \<Rightarrow> True | Some i \<Rightarrow> - (2 ^ (bits - 1)) \<le> i \<and> i < 2 ^ (bits - 1))"

definition valid_text :: "utext \<Rightarrow> bool" where
  "valid_text s \<longleftrightarrow> list_all (\<lambda>c. c \<noteq> 0 \<and> scalar c) s"

definition valid_opt :: "utext option \<Rightarrow> bool" where
  "valid_opt x = (case x of None \<Rightarrow> True | Some s \<Rightarrow> valid_text s)"

definition message_texts :: "message \<Rightarrow> utext list" where
  "message_texts msg =
     List.map_filter get [channel_name msg, message_text msg, image_path msg, file_path msg]"

definition varchar :: "nat \<Rightarrow> utext \<Rightarrow> utext option" where
  "varchar n s =
     (if length s \<le> n then Some s
      else if list_all (\<lambda>c. c = 0x20) (drop n s) then Some (take n s)
      else None)"

definition varchar_opt :: "nat \<Rightarrow> utext option \<Rightarrow> utext option option" where
  "varchar_opt n x = (case x of None \<Rightarrow> Some None | Some s \<Rightarrow> map_option Some (varchar n s))"

definition coerce_values :: "insert_values \<Rightarrow> load_error + insert_values" where
  "coerce_values v =
     (if \<not> valid_opt (v_channel_name v) then Inl (InvalidText ''channel_name'')
      else if \<not> valid_opt (v_message_text v) then Inl (InvalidText ''message_text'')
      else if \<not> valid_opt (v_image_path v) then Inl (InvalidText ''image_path'')
      else if \<not> list_all valid_text (message_texts (v_raw_data v))
        then Inl (InvalidText ''raw_data'')
      else if \<not> in_range 64 (v_message_id v) then Inl (NumericOutOfRange ''message_id'')
      else if \<not> in_range 32 (v_views v) then Inl (NumericOutOfRange ''views'')
      else if \<not> in_range 32 (v_forwards v) then Inl (NumericOutOfRange ''forwards'')
      else case varchar_opt 100 (v_channel_name v) of
             None \<Rightarrow> Inl (StringTooLong ''channel_name'')
           | Some chan \<Rightarrow>
        (case varchar_opt 500 (v_image_path v) of
             None \<Rightarrow> Inl (StringTooLong ''image_path'')
           | Some path \<Rightarrow>
               if v_message_id v = None then Inl (NotNullViolation ''message_id'')
               else if chan = None then Inl (NotNullViolation ''channel_name'')
               else if v_message_date v = None then Inl (NotNullViolation ''message_date'')
               else Inr (v\<lparr>v_channel_name := chan, v_image_path := path\<rparr>)))"

definition check_values :: "insert_values \<Rightarrow> load_error option" where
  "check_values v = (case coerce_values v of Inl e \<Rightarrow> Some e | Inr w \<Rightarrow> None)"

text \<open>The row a tuple is inserted as; \<open>created_at\<close> takes its default, the current timestamp.\<close>

definition new_row :: "int \<Rightarrow> int \<Rightarrow> utext \<Rightarrow> int \<Rightarrow> insert_values \<Rightarrow> table_row" where
  "new_row current_timestamp mid chan mdate v =
     \<lparr>col_message_id = mid, col_channel_name = chan, col_message_date = mdate,
      col_message_text = v_message_text v, col_has_media = v_has_media v,
      col_image_path = v_image_path v, col_views = v_views v, col_forwards = v_forwards v,
      col_scraped_at = v_scraped_at v, col_raw_data = v_raw_data v,
      col_created_at = current_timestamp\<rparr>"

text \<open>The \<open>DO UPDATE SET\<close> list of \<open>insert_sql\<close>, applied to the row in conflict.\<close>

definition do_update :: "insert_values \<Rightarrow> table_row \<Rightarrow> table_row" where
  "do_update excluded r =
     r\<lparr>col_message_text := v_message_text excluded,
       col_views := v_views excluded,
       col_forwards := v_forwards excluded,
       col_scraped_at := v_scraped_at excluded,
       col_raw_data := v_raw_data excluded\<rparr>"

text \<open>
  One execution of \<open>insert_sql\<close> on the table (its rows in insertion order): the tuple is
  checked and coerced; without a row of the same \<open>(message_id, channel_name)\<close> it is
  appended; otherwise the row in conflict is updated.
\<close>

definition insert_sql :: "int \<Rightarrow> table_row list \<Rightarrow> insert_values \<Rightarrow> load_error + table_row list" where
  "insert_sql current_timestamp tbl v =
     (case coerce_values v of
        Inl e \<Rightarrow> Inl e
      | Inr w \<Rightarrow>
          (case (v_message_id w, v_channel_name w, v_message_date w) of
             (Some mid, Some chan, Some mdate) \<Rightarrow>
               if (mid, chan) \<in> set (map row_key tbl)
               then Inr (map (\<lambda>r. if row_key r = (mid, chan) then do_update w r else r) tbl)
               else Inr (tbl @ [new_row current_timestamp mid chan mdate w])
           | _ \<Rightarrow> Inl (NotNullViolation '''')))"

subsection \<open>Batches and the run\<close>

text \<open>\<open>prepare_batch_data\<close>: one tuple per message.\<close>

definition prepare_values :: "message \<Rightarrow> insert_values" where
  "prepare_values msg =
     \<lparr>v_message_id = get (message_id msg),
      v_channel_name = get (channel_name msg),
      v_message_date = get (message_date msg),
      v_message_text = get_default (message_text msg) [],
      v_has_media = get_default (has_media msg) False,
      v_image_path = get (image_path msg),
      v_views = get_default (views msg) 0,
      v_forwards = get_default (forwards msg) 0,
      v_scraped_at = get (scraped_at msg),
      v_raw_data = msg\<rparr>"

definition prepare_batch_data :: "message list \<Rightarrow> insert_values list" where
  "prepare_batch_data messages = map prepare_values messages"

text \<open>
  \<open>execute_batch\<close> runs the statement once per tuple, in order, inside the open
  transaction; the first error ends it.
\<close>

fun execute_batch :: "int \<Rightarrow> table_row list \<Rightarrow> insert_values list \<Rightarrow> load_error + table_row list" where
  "execute_batch ts tbl [] = Inr tbl"
| "execute_batch ts tbl (v # vs) =
     (case insert_sql ts tbl v of Inl e \<Rightarrow> Inl e | Inr tbl' \<Rightarrow> execute_batch ts tbl' vs)"

text \<open>
  The loader's state: the committed rows of the table, and what the loader has logged.
  A function of the loader returns the exception it raises, if any, and the state it
  leaves.
\<close>

datatype log_event =
    LoadedMessages nat
  | ErrorLoadingBatch load_error
  | ErrorProcessingFile string
  | CompletedProcessing string
  | TotalLoaded nat
  | FatalError load_error

record loader =
  table :: "table_row list"
  logged :: "log_event list"

definition log_event :: "log_event \<Rightarrow> loader \<Rightarrow> loader" where
  "log_event e st = st\<lparr>logged := logged st @ [e]\<rparr>"

text \<open>
  \<open>load_batch\<close>: one transaction, begun at \<open>ts\<close>. On success the batch is committed; on an
  error the transaction is rolled back, the error is logged and raised again.
\<close>

definition load_batch :: "int \<Rightarrow> loader \<Rightarrow> insert_values list \<Rightarrow> load_error option \<times> loader" where
  "load_batch ts st batch_data =
     (if batch_data = [] then (None, st)
      else case execute_batch ts (table st) batch_data of
             Inr tbl' \<Rightarrow> (None, log_event (LoadedMessages (length batch_data)) (st\<lparr>table := tbl'\<rparr>))
           | Inl e \<Rightarrow> (Some e, log_event (ErrorLoadingBatch e) st))"

text \<open>
  \<open>process_json_file\<close>: a file that cannot be read or parsed (\<open>None\<close>) is logged and gives no
  messages; otherwise every message gets the file's path and a reading of the clock.
\<close>

type_synonym json_source = "string \<times> message list option"

definition process_json_file :: "(nat \<Rightarrow> int) \<Rightarrow> json_source \<Rightarrow> loader \<Rightarrow> message list \<times> loader" where
  "process_json_file now file st =
     (case snd file of
        None \<Rightarrow> ([], log_event (ErrorProcessingFile (fst file)) st)
      | Some messages \<Rightarrow>
          (map (\<lambda>(i, message). message\<lparr>file_path := Val (u (fst file)), processed_at := Val (now i)\<rparr>)
             (enumerate 0 messages), st))"

text \<open>
  The slices \<open>batch_data[i:i + batch_size]\<close> for \<open>i in range(0, len(batch_data), batch_size)\<close>.
  A step of zero makes \<open>range\<close> raise; a negative step gives no slice at all.
\<close>

function slices :: "nat \<Rightarrow> 'a list \<Rightarrow> 'a list list" where
  "slices n xs = (if n = 0 \<or> xs = [] then [] else take n xs # slices n (drop n xs))"
  by pat_completeness auto
termination
  by (relation "measure (\<lambda>(n, xs). length xs)") auto

declare slices.simps [simp del]

definition batches :: "int \<Rightarrow> 'a list \<Rightarrow> load_error + 'a list list" where
  "batches batch_size xs =
     (if batch_size = 0 then Inl ValueError
      else if batch_size < 0 then Inr []
      else Inr (slices (nat batch_size) xs))"

text \<open>
  The inner loop of \<open>run\<close>: the batches of one file are loaded in order, the \<open>j\<close>-th one in
  a transaction begun at \<open>tx j\<close>; an exception leaves the loop.
\<close>

fun load_batches :: "(nat \<Rightarrow> int) \<Rightarrow> loader \<Rightarrow> (nat \<times> insert_values list) list \<Rightarrow> load_error option \<times> loader" where
  "load_batches tx st [] = (None, st)"
| "load_batches tx st ((j, batch) # rest) =
     (case load_batch (tx j) st batch of
        (None, st') \<Rightarrow> load_batches tx st' rest
      | (Some e, st') \<Rightarrow> (Some e, st'))"

text \<open>
  The outer loop of \<open>run\<close> over the files found, with the running total of messages. The
  clocks are given per file: \<open>now k i\<close> is read for the \<open>i\<close>-th message of the \<open>k\<close>-th file,
  \<open>tx k j\<close> is the start of the transaction of its \<open>j\<close>-th batch.
\<close>

fun load_files ::
  "(nat \<Rightarrow> nat \<Rightarrow> int) \<Rightarrow> (nat \<Rightarrow> nat \<Rightarrow> int) \<Rightarrow> int \<Rightarrow> loader \<Rightarrow> nat \<Rightarrow> (nat \<times> json_source) list
     \<Rightarrow> load_error option \<times> loader \<times> nat" where
  "load_files now tx batch_size st total_messages [] = (None, st, total_messages)"
| "load_files now tx batch_size st total_messages ((k, file) # files) =
     (case process_json_file (now k) file st of
        (messages, st1) \<Rightarrow>
          if messages = [] then load_files now tx batch_size st1 total_messages files
          else
            (case batches batch_size (prepare_batch_data messages) of
               Inl e \<Rightarrow> (Some e, st1, total_messages)
             | Inr bs \<Rightarrow>
                 (case load_batches (tx k) st1 (enumerate 0 bs) of
                    (Some e, st2) \<Rightarrow> (Some e, st2, total_messages)
                  | (None, st2) \<Rightarrow>
                      load_files now tx batch_size
                        (log_event (CompletedProcessing (fst file)) st2)
                        (total_messages + length messages) files)))"

text \<open>
  \<open>run\<close>. \<open>connected\<close> tells whether the server can be reached, \<open>tbl\<close> is the committed
  table it holds; creating the schema and the table leaves an existing table as it is.
  Any exception is logged as fatal and raised again. The result is the exception raised,
  if any, and the state left behind.
\<close>

definition run ::
  "(nat \<Rightarrow> nat \<Rightarrow> int) \<Rightarrow> (nat \<Rightarrow> nat \<Rightarrow> int) \<Rightarrow> int \<Rightarrow> bool \<Rightarrow> table_row list \<Rightarrow> json_source list
     \<Rightarrow> load_error option \<times> loader" where
  "run now tx batch_size connected tbl json_files =
     (if \<not> connected
      then (Some ConnectionFailed, \<lparr>table = tbl, logged = [FatalError ConnectionFailed]\<rparr>)
      else
        (case load_files now tx batch_size \<lparr>table = tbl, logged = []\<rparr> 0 (enumerate 0 json_files) of
           (None, st, total_messages) \<Rightarrow> (None, log_event (TotalLoaded total_messages) st)
         | (Some e, st, total_messages) \<Rightarrow> (Some e, log_event (FatalError e) st)))"

subsection \<open>Example data\<close>

text \<open>
  Two scrapes of the same message: at the first the photo could not be downloaded, at the
  second it could and the view counter had grown. The third message lacks its identifier.
\<close>

definition scraped_first :: message where
  "scraped_first =
     \<lparr>message_id = Val 7, channel_name = Val (u ''chemed''), message_date = Val 1000,
      message_text = Val (u ''Paracetamol 500mg''), has_media = Val True, views = Val 10,
      forwards = Val 0, image_path = Null, scraped_at = Val 2000,
      file_path = Absent, processed_at = Absent\<rparr>"

definition scraped_again :: message where
  "scraped_again =
     \<lparr>message_id = Val 7, channel_name = Val (u ''chemed''), message_date = Val 1000,
      message_text = Val (u ''Paracetamol 500mg''), has_media = Val True, views = Val 25,
      forwards = Val 1, image_path = Val (u ''data/raw/images/chemed/7.jpg''), scraped_at = Val 9000,
      file_path = Absent, processed_at = Absent\<rparr>"

definition without_id :: message where
  "without_id =
     \<lparr>message_id = Absent, channel_name = Val (u ''chemed''), message_date = Val 1500,
      message_text = Val (u ''Amoxicillin''), has_media = Val False, views = Val 3,
      forwards = Val 0, image_path = Null, scraped_at = Val 2000,
      file_path = Absent, processed_at = Absent\<rparr>"

section \<open>Collector: scraping the channels (src/src/scraper.py)\<close>

text \<open>
  What the scraper reads of a Telegram message: its id, its date (an instant, in
  microseconds), its text, its media, its counters. Two flags stand for what the
  environment decides: whether downloading the photo succeeds, and whether reading the
  message raises an error inside \<open>process_message\<close>.
\<close>

datatype media = MessageMediaPhoto | OtherMedia

record tg_message =
  tg_id :: int
  tg_date :: int
  tg_text :: "utext option"
  tg_media :: "media option"
  tg_views :: "int option"
  tg_forwards :: "int option"
  download_ok :: bool
  tg_broken :: bool

text \<open>
  The iterator over a channel's messages hands out messages and may raise an error
  instead of the next one; \<open>FloodWaitError\<close> carries the seconds to wait.
\<close>

datatype scrape_error = FloodWaitError nat | OtherError

datatype stream_item = Yield tg_message | Raise scrape_error

text \<open>
  A channel as the scraper meets it: the error of \<open>get_entity\<close>, if it raises one, and the
  items that \<open>iter_messages(entity, offset_date=end_date, reverse=True)\<close> delivers, in the
  order in which it delivers them.
\<close>

type_synonym channel_source = "scrape_error option \<times> stream_item list"

definition images_dir :: string where
  "images_dir = ''data/raw/images''"

text \<open>\<open>download_image\<close>: the path of the downloaded photo, or \<open>None\<close> when the download fails.\<close>

definition download_image :: "tg_message \<Rightarrow> string \<Rightarrow> string option" where
  "download_image message channel =
     (if download_ok message
      then Some (images_dir @ ''/'' @ channel @ ''/'' @ str_int (tg_id message) @ ''.jpg'')
      else None)"

text \<open>
  \<open>process_message\<close>, with the clock reading that becomes \<open>scraped_at\<close>. \<open>x or d\<close> takes \<open>d\<close> for
  \<open>None\<close>, for the empty text and for zero.
\<close>

definition process_message :: "int \<Rightarrow> tg_message \<Rightarrow> string \<Rightarrow> message option" where
  "process_message now message channel =
     (if tg_broken message then None
      else Some
        \<lparr>message_id = Val (tg_id message),
         channel_name = Val (u channel),
         message_date = Val (tg_date message),
         message_text = Val (case tg_text message of None \<Rightarrow> [] | Some t \<Rightarrow> t),
         has_media = Val (tg_media message \<noteq> None),
         views = Val (case tg_views message of None \<Rightarrow> 0 | Some n \<Rightarrow> n),
         forwards = Val (case tg_forwards message of None \<Rightarrow> 0 | Some n \<Rightarrow> n),
         image_path =
           (if tg_media message = Some MessageMediaPhoto
            then (case download_image message channel of None \<Rightarrow> Null | Some p \<Rightarrow> Val (u p))
            else Null),
         scraped_at = Val now,
         file_path = Absent,
         processed_at = Absent\<rparr>)"

definition one_day :: int where
  "one_day = 86400000000"

text \<open>
  The loop of \<open>scrape_channel\<close> over the items of the iterator: \<open>i\<close> counts the messages
  processed so far (the \<open>i\<close>-th one reads the clock as \<open>clock i\<close>), \<open>messages\<close> is the list
  collected so far. A message older than \<open>start_date\<close> breaks the loop; an error leaves it.
  The pause after each message takes time only.
\<close>

fun collect ::
  "(nat \<Rightarrow> int) \<Rightarrow> string \<Rightarrow> int \<Rightarrow> nat \<Rightarrow> message list \<Rightarrow> stream_item list
     \<Rightarrow> scrape_error + message list" where
  "collect clock channel start_date i messages [] = Inr messages"
| "collect clock channel start_date i messages (Raise e # items) = Inl e"
| "collect clock channel start_date i messages (Yield message # items) =
     (if tg_date message < start_date then Inr messages
      else case process_message (clock i) message channel of
             Some processed_msg \<Rightarrow>
               collect clock channel start_date (Suc i) (messages @ [processed_msg]) items
           | None \<Rightarrow> collect clock channel start_date (Suc i) messages items)"

text \<open>
  The date range of \<open>scrape_channel\<close>. \<open>timedelta(days=days_back)\<close> raises an overflow error
  beyond 999999999 days either way, and so does the subtraction when the result leaves
  the years 1 to 9999; the subtraction is done on the wall clock of Addis Ababa, three
  hours ahead of UTC.
\<close>

definition start_date :: "int \<Rightarrow> int \<Rightarrow> int" where
  "start_date end_date days_back = end_date - days_back * one_day"

definition datetime_min :: int where
  "datetime_min = - 62135596800000000"

definition datetime_max :: int where
  "datetime_max = 253402300799999999"

definition utc_offset :: int where
  "utc_offset = 3 * 3600000000"

definition date_overflow :: "int \<Rightarrow> int \<Rightarrow> bool" where
  "date_overflow end_date days_back \<longleftrightarrow>
     days_back < - 999999999 \<or> 999999999 < days_back
     \<or> start_date end_date days_back + utc_offset < datetime_min
     \<or> datetime_max < start_date end_date days_back + utc_offset"

text \<open>
  \<open>scrape_channel\<close>, given what \<open>get_entity\<close> and the iterator deliver: \<open>end_date\<close> is the
  clock reading at its start. Any error, of \<open>get_entity\<close>, of the date range or of the
  iterator, is caught: the function logs it and returns the empty list.
\<close>

definition scrape_channel ::
  "(nat \<Rightarrow> int) \<Rightarrow> string \<Rightarrow> int \<Rightarrow> int \<Rightarrow> channel_source \<Rightarrow> message list" where
  "scrape_channel clock channel_username end_date days_back source =
     (case fst source of
        Some e \<Rightarrow> []
      | None \<Rightarrow>
          if date_overflow end_date days_back then []
          else
            case collect clock channel_username (start_date end_date days_back) 0 []
                   (snd source) of
              Inl e \<Rightarrow> []
            | Inr messages \<Rightarrow> messages)"

subsection \<open>What the iterator is asked for\<close>

text \<open>
  A channel as Telegram holds it: the error of \<open>get_entity\<close>, if it raises one; the
  messages of the channel, oldest first; and the error with which the iterator breaks
  off, if it does, after the number of messages it has delivered before.

  \<open>iter_messages\<close> as the library documents it: without \<open>reverse\<close> it delivers the messages
  before \<open>offset_date\<close>, newest first; with \<open>reverse\<close> the messages go from oldest to newest
  and the meaning of \<open>offset_date\<close> is reversed too, so that it delivers the messages after
  \<open>offset_date\<close>. The bound is exclusive either way.
\<close>

record telegram_channel =
  entity_error :: "scrape_error option"
  history :: "tg_message list"
  breaks_off :: "(nat \<times> scrape_error) option"

definition iter_messages :: "tg_message list \<Rightarrow> int \<Rightarrow> bool \<Rightarrow> tg_message list" where
  "iter_messages messages offset_date reversed =
     (if reversed then filter (\<lambda>m. offset_date < tg_date m) messages
      else rev (filter (\<lambda>m. tg_date m < offset_date) messages))"

definition delivered :: "telegram_channel \<Rightarrow> int \<Rightarrow> channel_source" where
  "delivered tc end_date =
     (entity_error tc,
      let ms = iter_messages (history tc) end_date True
      in case breaks_off tc of
           None \<Rightarrow> map Yield ms
         | Some (k, e) \<Rightarrow> map Yield (take k ms) @ [Raise e])"

text \<open>
  \<open>scrape_channel\<close> on a channel as Telegram holds it: the iterator is asked with
  \<open>offset_date=end_date\<close> and \<open>reverse=True\<close>.
\<close>

definition scrape_channel_at ::
  "(nat \<Rightarrow> int) \<Rightarrow> string \<Rightarrow> int \<Rightarrow> int \<Rightarrow> telegram_channel \<Rightarrow> message list" where
  "scrape_channel_at clock channel_username end_date days_back tc =
     scrape_channel clock channel_username end_date days_back (delivered tc end_date)"

subsection \<open>Saving and the pass over all channels\<close>










subsection \<open>Example data\<close>

definition photo_post :: "int \<Rightarrow> int \<Rightarrow> tg_message" where
  "photo_post n t =
     \<lparr>tg_id = n, tg_date = t, tg_text = Some (u ''Vitamin C''), tg_media = Some MessageMediaPhoto,
      tg_views = Some 40, tg_forwards = None, download_ok = True, tg_broken = False\<rparr>"

subsection \<open>Describing where a pass stops\<close>

text \<open>
  The messages an iterator delivers, leaving out the errors; the longest run of messages
  at the head of the stream none of which is older than \<open>start_date\<close>; and what follows
  that run. The records of a list of messages, the \<open>i\<close>-th clock reading going to the first.
\<close>

fun yielded :: "stream_item list \<Rightarrow> tg_message list" where
  "yielded [] = []"
| "yielded (Yield m # items) = m # yielded items"
| "yielded (Raise e # items) = yielded items"

fun in_window :: "int \<Rightarrow> stream_item list \<Rightarrow> tg_message list" where
  "in_window start [] = []"
| "in_window start (Raise e # items) = []"
| "in_window start (Yield m # items) =
     (if tg_date m < start then [] else m # in_window start items)"

fun after_window :: "int \<Rightarrow> stream_item list \<Rightarrow> stream_item list" where
  "after_window start [] = []"
| "after_window start (Raise e # items) = Raise e # items"
| "after_window start (Yield m # items) =
     (if tg_date m < start then Yield m # items else after_window start items)"

fun process_all :: "(nat \<Rightarrow> int) \<Rightarrow> string \<Rightarrow> nat \<Rightarrow> tg_message list \<Rightarrow> message list" where
  "process_all clock channel i [] = []"
| "process_all clock channel i (m # ms) =
     (case process_message (clock i) m channel of
        Some processed_msg \<Rightarrow> processed_msg # process_all clock channel (Suc i) ms
      | None \<Rightarrow> process_all clock channel (Suc i) ms)"

definition raises :: "stream_item list \<Rightarrow> bool" where
  "raises items = (case items of Raise e # rest \<Rightarrow> True | _ \<Rightarrow> False)"


section \<open>Detection results through a CSV file (src/src/yolo\_detect.py, src/src/load\_yolo\_results.py)\<close>

text \<open>
  A detection result is the dictionary that \<open>process_images_directory\<close> hands to
  \<open>save_results_csv\<close>: the result of \<open>detect_objects\<close> with the message id, the channel
  name and the file name added. Of a detection the writer reads the class name, a text
  of any characters, and the confidence.
\<close>

record 'c detected =
  det_class_name :: utext
  det_confidence :: 'c

record 'c detection_result =
  res_message_id :: int
  res_channel_name :: utext
  res_filename :: utext
  res_image_path :: utext
  detections :: "'c detected list"
  detection_count :: int
  image_category :: utext
  processing_time :: utext

text \<open>
  A CSV file is taken as the rows of fields that \<open>csv.writer\<close> is given and \<open>csv.reader\<close>
  gives back: the quoting that the writer adds, the reader removes.
\<close>

type_synonym csv_file = "utext list list"

definition csv_header :: "utext list" where
  "csv_header =
     map u
       [''message_id'', ''channel_name'', ''filename'', ''image_path'', ''detection_count'',
        ''image_category'', ''processing_time'', ''detected_objects'', ''confidence_scores'']"

text \<open>
  The row that \<open>save_results_csv\<close> hands to the writer for a result. \<open>str_float\<close> is \<open>str\<close> on
  the confidences.
\<close>

definition result_row :: "('c \<Rightarrow> utext) \<Rightarrow> 'c detection_result \<Rightarrow> utext list" where
  "result_row str_float result =
     (let object_names = map det_class_name (detections result);
          confidences = map det_confidence (detections result)
      in [u (str_int (res_message_id result)),
          res_channel_name result,
          res_filename result,
          res_image_path result,
          u (str_int (detection_count result)),
          image_category result,
          processing_time result,
          join [semicolon] object_names,
          join [semicolon] (map str_float confidences)])"

text \<open>
  Writing a row raises an error when an integer of it has too many digits to be printed,
  or when a text of it holds a character that UTF-8 cannot encode.
\<close>

definition writable :: "('c \<Rightarrow> utext) \<Rightarrow> 'c detection_result \<Rightarrow> bool" where
  "writable str_float result \<longleftrightarrow>
     str_ok (res_message_id result) \<and> str_ok (detection_count result)
     \<and> list_all (list_all scalar) (result_row str_float result)"

text \<open>
  \<open>save_results_csv\<close>: the header and one row per result. An error ends the writing and is
  logged; the file keeps the rows written before it.
\<close>

definition save_results_csv :: "('c \<Rightarrow> utext) \<Rightarrow> 'c detection_result list \<Rightarrow> csv_file" where
  "save_results_csv str_float results =
     csv_header # map (result_row str_float) (takeWhile (writable str_float) results)"

text \<open>
  Reading the rows. The file is written with \<open>newline=''\<close> and read without, so the reader
  sees every field after the translation of its line ends. It raises an error at a field
  of more than 131072 characters, and at a NUL character when \<open>nul_error\<close> holds, as it
  does for Python before version 3.11.
\<close>

definition field_size_limit :: nat where
  "field_size_limit = 131072"

definition read_field :: "bool \<Rightarrow> utext \<Rightarrow> utext option" where
  "read_field nul_error s =
     (let t = universal_newlines s
      in if field_size_limit < length t \<or> (nul_error \<and> 0 \<in> set t) then None else Some t)"

fun read_all :: "('a \<Rightarrow> 'b option) \<Rightarrow> 'a list \<Rightarrow> 'b list option" where
  "read_all f [] = Some []"
| "read_all f (x # xs) =
     (case f x of
        None \<Rightarrow> None
      | Some y \<Rightarrow> map_option (\<lambda>ys. y # ys) (read_all f xs))"

definition read_rows :: "bool \<Rightarrow> csv_file \<Rightarrow> csv_file option" where
  "read_rows nul_error f = read_all (read_all (read_field nul_error)) f"

text \<open>
  \<open>csv.DictReader\<close>: the first row names the fields; an empty row is skipped; a row
  becomes a dictionary from the field names to its fields, a later one of two equal names
  winning; the names a short row has no field for get \<open>None\<close>.
\<close>

definition dict_row :: "utext list \<Rightarrow> utext list \<Rightarrow> (utext \<times> utext option) list" where
  "dict_row fieldnames row =
     rev (zip fieldnames (map Some row @ replicate (length fieldnames - length row) None))"

definition dict_reader :: "csv_file \<Rightarrow> (utext \<times> utext option) list list" where
  "dict_reader f =
     (case f of
        [] \<Rightarrow> []
      | fieldnames # rows \<Rightarrow> map (dict_row fieldnames) (filter (\<lambda>row. row \<noteq> []) rows))"

text \<open>\<open>row.get(key, default)\<close>: the default stands in for a missing key only.\<close>

definition row_get :: "(utext \<times> utext option) list \<Rightarrow> string \<Rightarrow> 'a \<Rightarrow> ('a + utext option)" where
  "row_get row k dflt = (case map_of row (u k) of None \<Rightarrow> Inl dflt | Some v \<Rightarrow> Inr v)"

text \<open>
  The record that \<open>load_csv_results\<close> builds from a row. \<open>detected_objects\<close> is the list that
  is then serialised with \<open>json.dumps\<close>; a text field is \<open>None\<close> where a short row has no
  field for it.
\<close>

record 'c yolo_record =
  rec_message_id :: int
  rec_channel_name :: "utext option"
  rec_image_path :: "utext option"
  detected_objects :: "(utext \<times> 'c) list"
  rec_detection_count :: int
  rec_image_category :: "utext option"
  processing_date :: "utext option"

text \<open>
  The loop over \<open>zip(object_names, confidence_scores)\<close>: a pair with an empty name or an
  empty confidence is passed over; \<open>float\<close> may raise, which is the result \<open>None\<close>.
\<close>

fun parse_objects :: "(utext \<Rightarrow> 'c option) \<Rightarrow> (utext \<times> utext) list \<Rightarrow> (utext \<times> 'c) list option" where
  "parse_objects float_of [] = Some []"
| "parse_objects float_of ((obj_name, confidence_text) # pairs) =
     (if obj_name \<noteq> [] \<and> confidence_text \<noteq> []
      then (case float_of (strip confidence_text) of
              None \<Rightarrow> None
            | Some c \<Rightarrow> map_option (\<lambda>objs. (strip obj_name, c) # objs) (parse_objects float_of pairs))
      else parse_objects float_of pairs)"

text \<open>
  The text of a field that is split at semicolons: \<open>None\<close> where \<open>split\<close> is called on
  Python's \<open>None\<close> and raises.
\<close>

definition split_field :: "(utext \<times> utext option) list \<Rightarrow> string \<Rightarrow> utext list option" where
  "split_field row k =
     (case row_get row k [] of
        Inl dflt \<Rightarrow> Some (split semicolon dflt)
      | Inr None \<Rightarrow> None
      | Inr (Some s) \<Rightarrow> Some (split semicolon s))"

text \<open>
  \<open>int(row.get(key, 0))\<close>: the default is the integer zero; \<open>None\<close> and a malformed text
  raise. \<open>int\<close> is read by \<open>ascii_int\<close>, which agrees with it on the numerals in ASCII
  digits, all that the writer prints.
\<close>

definition int_field :: "(utext \<times> utext option) list \<Rightarrow> string \<Rightarrow> int option" where
  "int_field row k =
     (case row_get row k (0::int) of
        Inl dflt \<Rightarrow> Some dflt
      | Inr None \<Rightarrow> None
      | Inr (Some s) \<Rightarrow> ascii_int s)"

definition text_field :: "(utext \<times> utext option) list \<Rightarrow> string \<Rightarrow> utext \<Rightarrow> utext option" where
  "text_field row k dflt = (case row_get row k dflt of Inl d \<Rightarrow> Some d | Inr v \<Rightarrow> v)"

text \<open>The body of the loop over the rows; \<open>None\<close> is an exception.\<close>

definition parse_row :: "(utext \<Rightarrow> 'c option) \<Rightarrow> utext \<Rightarrow> (utext \<times> utext option) list \<Rightarrow> 'c yolo_record option" where
  "parse_row float_of now row =
     (case split_field row ''detected_objects'' of
        None \<Rightarrow> None
      | Some object_names \<Rightarrow>
     (case split_field row ''confidence_scores'' of
        None \<Rightarrow> None
      | Some confidence_scores \<Rightarrow>
     (case parse_objects float_of (zip object_names confidence_scores) of
        None \<Rightarrow> None
      | Some objs \<Rightarrow>
     (case int_field row ''message_id'' of
        None \<Rightarrow> None
      | Some mid \<Rightarrow>
     (case int_field row ''detection_count'' of
        None \<Rightarrow> None
      | Some cnt \<Rightarrow>
          Some \<lparr>rec_message_id = mid,
                rec_channel_name = text_field row ''channel_name'' [],
                rec_image_path = text_field row ''image_path'' [],
                detected_objects = objs,
                rec_detection_count = cnt,
                rec_image_category = text_field row ''image_category'' (u ''other''),
                processing_date = text_field row ''processing_time'' now\<rparr>)))))"

text \<open>
  \<open>load_csv_results\<close>: \<open>csv_path\<close> is \<open>None\<close> when the file does not exist. \<open>float_of\<close> is
  \<open>float\<close> on a text, \<open>now\<close> the clock reading that stands in for a missing processing time.
  A missing file and any exception, of the reader or of the loop, give the empty list.
\<close>

definition load_csv_results ::
  "bool \<Rightarrow> (utext \<Rightarrow> 'c option) \<Rightarrow> utext \<Rightarrow> csv_file option \<Rightarrow> 'c yolo_record list" where
  "load_csv_results nul_error float_of now csv_path =
     (case csv_path of
        None \<Rightarrow> []
      | Some f \<Rightarrow>
          (case read_rows nul_error f of
             None \<Rightarrow> []
           | Some rows \<Rightarrow>
               (case read_all (parse_row float_of now) (dict_reader rows) of
                  None \<Rightarrow> []
                | Some records \<Rightarrow> records)))"

text \<open>The record that a result is to come back as.\<close>

definition expected_record :: "'c detection_result \<Rightarrow> 'c yolo_record" where
  "expected_record result =
     \<lparr>rec_message_id = res_message_id result,
      rec_channel_name = Some (res_channel_name result),
      rec_image_path = Some (res_image_path result),
      detected_objects = map (\<lambda>d. (det_class_name d, det_confidence d)) (detections result),
      rec_detection_count = detection_count result,
      rec_image_category = Some (image_category result),
      processing_date = Some (processing_time result)\<rparr>"

text \<open>
  A text that the file holds and the reader reads: no NUL character, no character that
  UTF-8 cannot encode, at most 131072 characters. A text that is read back as it was
  written: such a text without a carriage return. A class name or the text of a
  confidence that comes back from the semicolon lists as it went in: not empty, no
  semicolon, no whitespace at either end.
\<close>

definition storable :: "utext \<Rightarrow> bool" where
  "storable s \<longleftrightarrow> list_all (\<lambda>c. c \<noteq> 0 \<and> scalar c) s \<and> length s \<le> field_size_limit"

definition plain :: "utext \<Rightarrow> bool" where
  "plain s \<longleftrightarrow> storable s \<and> carriage_return \<notin> set s"

definition list_item :: "utext \<Rightarrow> bool" where
  "list_item s \<longleftrightarrow> s \<noteq> [] \<and> semicolon \<notin> set s \<and> \<not> is_space (hd s) \<and> \<not> is_space (last s)"

definition round_trips :: "('c \<Rightarrow> utext) \<Rightarrow> (utext \<Rightarrow> 'c option) \<Rightarrow> 'c detection_result \<Rightarrow> bool" where
  "round_trips str_float float_of result \<longleftrightarrow>
     str_ok (res_message_id result) \<and> str_ok (detection_count result)
     \<and> plain (res_channel_name result) \<and> storable (res_filename result)
     \<and> plain (res_image_path result) \<and> plain (image_category result)
     \<and> plain (processing_time result)
     \<and> plain (join [semicolon] (map det_class_name (detections result)))
     \<and> plain (join [semicolon] (map str_float (map det_confidence (detections result))))
     \<and> list_all (\<lambda>d. list_item (det_class_name d) \<and> list_item (str_float (det_confidence d))
                      \<and> float_of (str_float (det_confidence d)) = Some (det_confidence d))
          (detections result)"

subsection \<open>Example data\<close>

text \<open>
  In the examples a confidence is the text that \<open>str\<close> prints for it, which \<open>float\<close> reads
  back: printing is the identity and reading always succeeds.
\<close>

definition bottle_and_person :: "utext detection_result" where
  "bottle_and_person =
     \<lparr>res_message_id = 12, res_channel_name = u ''chemed'', res_filename = u ''12.jpg'',
      res_image_path = u ''data/raw/images/chemed/12.jpg'',
      detections =
        [\<lparr>det_class_name = u ''bottle'', det_confidence = u ''0.87''\<rparr>,
         \<lparr>det_class_name = u ''person'', det_confidence = u ''0.5''\<rparr>],
      detection_count = 2, image_category = u ''promotional'',
      processing_time = u ''2024-01-01T02:00:00''\<rparr>"

definition nothing_detected :: "utext detection_result" where
  "nothing_detected =
     \<lparr>res_message_id = 13, res_channel_name = u ''chemed'', res_filename = u ''13.jpg'',
      res_image_path = u ''data/raw/images/chemed/13.jpg'',
      detections = [],
      detection_count = 0, image_category = u ''other'',
      processing_time = u ''2024-01-01T02:00:01''\<rparr>"

definition odd_names :: "utext detection_result" where
  "odd_names =
     \<lparr>res_message_id = 14, res_channel_name = u ''chemed'', res_filename = u ''14.jpg'',
      res_image_path = u ''data/raw/images/chemed/14.jpg'',
      detections =
        [\<lparr>det_class_name = u '' cup'', det_confidence = u ''0.9''\<rparr>,
         \<lparr>det_class_name = [], det_confidence = u ''0.4''\<rparr>],
      detection_count = 2, image_category = u ''product_display'',
      processing_time = u ''2024-01-01T02:00:02''\<rparr>"

text \<open>A class name that begins with the no-break space U+00A0.\<close>

definition no_break_space_name :: "utext detection_result" where
  "no_break_space_name =
     \<lparr>res_message_id = 15, res_channel_name = u ''chemed'', res_filename = u ''15.jpg'',
      res_image_path = u ''data/raw/images/chemed/15.jpg'',
      detections = [\<lparr>det_class_name = 0xA0 # u ''cup'', det_confidence = u ''0.9''\<rparr>],
      detection_count = 1, image_category = u ''product_display'',
      processing_time = u ''2024-01-01T02:00:03''\<rparr>"

section \<open>Properties\<close>

subsection \<open>The classifier's rule table\<close>

lemma has_container_iff:
  "(\<exists>cls \<in> L. cls \<in> set medical_containers) \<longleftrightarrow> L \<inter> container_labels \<noteq> {}"
  by (auto simp: medical_containers_def container_labels_def)

lemma has_tool_iff:
  "(\<exists>cls \<in> L. cls \<in> set medical_tools) \<longleftrightarrow> L \<inter> tool_labels \<noteq> {}"
  by (auto simp: medical_tools_def tool_labels_def)

text \<open>
  C1. For every list of detections the classifier returns the category that the ordered
  rule table gives on the set of detected labels (container and person: promotional;
  container without person: product\_display; person without container: lifestyle; a tool
  label: medical\_tools; otherwise, and for the empty list, other). Two detection lists
  with the same label set get the same category.
\<close>

theorem classify_image_rule_table:
  fixes ds ds' :: "'c detection list"
  shows "classify_image ds = first_match rule_table (detected_labels ds)
   \<and> (detected_labels ds = detected_labels ds' \<longrightarrow> classify_image ds = classify_image ds')"
proof -
  have eq: "classify_image xs = first_match rule_table (detected_labels xs)"
    for xs :: "'c detection list"
  proof (cases "xs = []")
    case True
    then show ?thesis
      by (simp add: classify_image_def rule_table_def detected_labels_def)
  next
    case False
    then show ?thesis
      unfolding classify_image_def Let_def has_container_iff has_tool_iff
      by (simp add: rule_table_def detected_labels_def)
  qed
  have "detected_labels ds = detected_labels ds' \<longrightarrow> classify_image ds = classify_image ds'"
    by (simp add: eq)
  with eq [of ds] show ?thesis by blast
qed

theorem classify_image_rule_table_witness:
  "classify_image
     [\<lparr>class_id = 39, class_name = ''bottle'', confidence = (9::nat), bbox = []\<rparr>,
      \<lparr>class_id = 0, class_name = ''person'', confidence = 8, bbox = []\<rparr>] = ''promotional''
   \<and> classify_image
     [\<lparr>class_id = 0, class_name = ''person'', confidence = (8::nat), bbox = []\<rparr>,
      \<lparr>class_id = 39, class_name = ''bottle'', confidence = 9, bbox = []\<rparr>,
      \<lparr>class_id = 0, class_name = ''person'', confidence = 7, bbox = []\<rparr>] = ''promotional''"
  using classify_image_rule_table
    [of "[\<lparr>class_id = 39, class_name = ''bottle'', confidence = (9::nat), bbox = []\<rparr>,
          \<lparr>class_id = 0, class_name = ''person'', confidence = 8, bbox = []\<rparr>]"
        "[\<lparr>class_id = 0, class_name = ''person'', confidence = (8::nat), bbox = []\<rparr>,
          \<lparr>class_id = 39, class_name = ''bottle'', confidence = 9, bbox = []\<rparr>,
          \<lparr>class_id = 0, class_name = ''person'', confidence = 7, bbox = []\<rparr>]"]
  by (simp add: classify_image_def medical_containers_def medical_tools_def)

subsection \<open>The run report's overall flag\<close>

lemma length_filter_eq_iff:
  "length (filter P xs) = length xs \<longleftrightarrow> (\<forall>x \<in> set xs. P x)"
proof (induction xs)
  case Nil
  then show ?case by simp
next
  case (Cons x xs)
  have "length (filter P xs) \<le> length xs" by (rule length_filter_le)
  then have "length (filter P xs) \<noteq> Suc (length xs)" by arith
  with Cons show ?case by simp
qed

lemma collect_steps_from:
  "map status (concat (map (\<lambda>(i, arg).
       case arg of
         PDict d \<Rightarrow>
           [\<lparr>step = i + 1,
             status = dict_get d ''status'' (PStr ''unknown''),
             timestamp = dict_get d ''timestamp'' (PStr ''''),
             details = filter (\<lambda>(k, v). k \<notin> set [''status'', ''timestamp'']) d\<rparr>]
       | _ \<Rightarrow> []) (enumerate n args)))
     = map payload_status (dict_payloads args)"
  by (induction args arbitrary: n rule: dict_payloads.induct) (simp_all add: payload_status_def)

lemma collect_steps_status:
  "map status (collect_steps args) = map payload_status (dict_payloads args)"
  unfolding collect_steps_def by (rule collect_steps_from)

text \<open>
  C2, as the code has it. When the report step produces its report from a sequence of
  payloads, the steps of the report are the payloads that are dictionaries, in their
  order, each with the status its dictionary gives (\<open>unknown\<close> when it gives none); a
  payload that is not a dictionary is not aggregated. The overall flag of the report is
  true if and only if every aggregated payload has one of the statuses success, ready or
  skipped.
\<close>

theorem generate_report_all_successful:
  assumes "generate_report json_ok run_id now args = Inr report"
  shows "map status (steps report) = map payload_status (dict_payloads args)
     \<and> total_steps report = length (dict_payloads args)
     \<and> (all_successful report \<longleftrightarrow>
          (\<forall>d \<in> set (dict_payloads args).
             payload_status d = PStr ''success'' \<or> payload_status d = PStr ''ready''
             \<or> payload_status d = PStr ''skipped''))"
proof -
  let ?steps = "collect_steps args"
  from assms have r: "steps report = ?steps" "total_steps report = length ?steps"
    "all_successful report \<longleftrightarrow> length (filter counted_successful ?steps) = length ?steps"
    by (auto simp: generate_report_def Let_def split: if_splits)
  have st: "map status ?steps = map payload_status (dict_payloads args)"
    by (rule collect_steps_status)
  have len: "length ?steps = length (dict_payloads args)"
    using arg_cong [OF st, of length] by simp
  have "all_successful report \<longleftrightarrow> (\<forall>x \<in> set (map status ?steps).
      x = PStr ''success'' \<or> x = PStr ''ready'' \<or> x = PStr ''skipped'')"
    unfolding r(3) length_filter_eq_iff by (simp add: counted_successful_def)
  also have "\<dots> \<longleftrightarrow> (\<forall>d \<in> set (dict_payloads args).
      payload_status d = PStr ''success'' \<or> payload_status d = PStr ''ready''
      \<or> payload_status d = PStr ''skipped'')"
    unfolding st by simp
  finally show ?thesis
    using r(1,2) st len by simp
qed

theorem generate_report_all_successful_witness:
  "map_sum id all_successful (generate_report (\<lambda>x. True) ''run1'' ''2024-01-01T02:00:00''
     [PStr ''Database initialized successfully'',
      PDict [(''status'', PStr ''success''), (''json_files'', POther (3::nat))],
      PDict [(''status'', PStr ''ready'')]]) = Inr True
   \<and> map_sum id all_successful (generate_report (\<lambda>x. True) ''run1'' ''2024-01-01T02:00:00''
     [PDict [(''status'', PStr ''success'')], PDict [(''status'', PStr ''failed'')],
      PDict [(''reason'', POther (0::nat))]]) = Inr False"
  using generate_report_all_successful [of "\<lambda>x. True" "''run1''" "''2024-01-01T02:00:00''"
      "[PStr ''Database initialized successfully'',
        PDict [(''status'', PStr ''success''), (''json_files'', POther (3::nat))],
        PDict [(''status'', PStr ''ready'')]]"
      "projr (generate_report (\<lambda>x. True) ''run1'' ''2024-01-01T02:00:00''
         [PStr ''Database initialized successfully'',
          PDict [(''status'', PStr ''success''), (''json_files'', POther (3::nat))],
          PDict [(''status'', PStr ''ready'')]])"]
    generate_report_all_successful [of "\<lambda>x. True" "''run1''" "''2024-01-01T02:00:00''"
      "[PDict [(''status'', PStr ''success'')], PDict [(''status'', PStr ''failed'')],
        PDict [(''reason'', POther (0::nat))]]"
      "projr (generate_report (\<lambda>x. True) ''run1'' ''2024-01-01T02:00:00''
         [PDict [(''status'', PStr ''success'')], PDict [(''status'', PStr ''failed'')],
          PDict [(''reason'', POther (0::nat))]])"]
  by (simp add: generate_report_def Let_def collect_steps_def enumerate_eq_zip dict_get_def
      counted_successful_def step_serialisable_def payload_status_def upt_rec)

text \<open>
  The claim as the specification states it fails: a run whose detection step was skipped
  for want of images is reported with the overall flag set, although not every step has
  the status success.
\<close>

theorem generate_report_skipped_counterexample:
  "map_sum id (\<lambda>r. (all_successful r, map status (steps r)))
     (generate_report (\<lambda>x. True) ''run1'' ''2024-01-01T02:00:00''
        [PDict [(''status'', PStr ''success''), (''rows_loaded'', POther (12::nat))],
         PDict [(''status'', PStr ''skipped''), (''reason'', PStr ''No images found'')]])
     = Inr (True, [PStr ''success'', PStr ''skipped''])"
  by (simp add: generate_report_def Let_def collect_steps_def enumerate_eq_zip dict_get_def
      counted_successful_def step_serialisable_def payload_status_def upt_rec)

subsection \<open>The new-data sensor\<close>

lemma filter_nonempty_iff: "filter P xs \<noteq> [] \<longleftrightarrow> (\<exists>x \<in> set xs. P x)"
  by (simp add: filter_empty_conv)

text \<open>
  C9, as the code has it. When some file is newer than the stored watermark, the
  evaluation emits exactly one run request and sets the watermark to the current time in
  the same evaluation; the new watermark is strictly greater than the old one whenever
  one of the new files was modified no later than the current time. When no file is newer
  than the watermark (or the data directory is missing), no run request is emitted and the
  watermark is unchanged.
\<close>

theorem new_data_sensor_watermark:
  "((\<exists>f \<in> set (json_files_of data_dir). last_run_time cursor < snd f) \<longrightarrow>
      run_requests (snd (new_data_sensor cursor data_dir now key_time)) = [key_time]
      \<and> fst (new_data_sensor cursor data_dir now key_time) = Some now
      \<and> ((\<exists>f \<in> set (json_files_of data_dir). last_run_time cursor < snd f \<and> snd f \<le> now) \<longrightarrow>
           last_run_time cursor
             < last_run_time (fst (new_data_sensor cursor data_dir now key_time))))
   \<and> (\<not> (\<exists>f \<in> set (json_files_of data_dir). last_run_time cursor < snd f) \<longrightarrow>
      run_requests (snd (new_data_sensor cursor data_dir now key_time)) = []
      \<and> fst (new_data_sensor cursor data_dir now key_time) = cursor)"
proof (cases data_dir)
  case None
  then show ?thesis
    by (simp add: new_data_sensor_def json_files_of_def run_requests_def)
next
  case (Some files)
  have new: "filter (\<lambda>(json_file, file_time). last_run_time cursor < file_time) files \<noteq> []
      \<longleftrightarrow> (\<exists>f \<in> set files. last_run_time cursor < snd f)"
    by (force simp: filter_nonempty_iff)
  show ?thesis
  proof (cases "\<exists>f \<in> set files. last_run_time cursor < snd f")
    case True
    with Some new show ?thesis
      by (auto simp: new_data_sensor_def json_files_of_def run_requests_def Let_def
          last_run_time_def)
  next
    case False
    with Some new show ?thesis
      by (simp add: new_data_sensor_def json_files_of_def run_requests_def Let_def)
  qed
qed

theorem new_data_sensor_watermark_witness:
  "new_data_sensor (Some 2000) (Some [(''a.json'', 1500), (''b.json'', 2500)]) 3000 3001
     = (Some 3000, RunRequest 3001)
   \<and> new_data_sensor (Some 2000) (Some [(''a.json'', 1500)]) 3000 3001
     = (Some 2000, SkipReason ''No new data files found'')"
  using new_data_sensor_watermark
      [of "Some [(''a.json'', 1500), (''b.json'', 2500)]" "Some 2000" 3000 3001]
    new_data_sensor_watermark [of "Some [(''a.json'', 1500)]" "Some 2000" 3000 3001]
  by (simp add: new_data_sensor_def last_run_time_def)

text \<open>
  The claim as the specification states it fails where the new file's modification time
  lies in the future of the sensor's clock: the watermark is set to the current time,
  which is earlier than the stored one.
\<close>

theorem new_data_sensor_regress_counterexample:
  "run_requests (snd (new_data_sensor (Some 2000) (Some [(''a.json'', 3000)]) 1000 1001)) = [1001]
   \<and> last_run_time (fst (new_data_sensor (Some 2000) (Some [(''a.json'', 3000)]) 1000 1001))
       < last_run_time (Some 2000)"
  by (simp add: new_data_sensor_def last_run_time_def run_requests_def)

subsection \<open>The upsert statement\<close>

lemma varchar_take: "varchar n s = Some t \<Longrightarrow> t = take n s"
  by (auto simp: varchar_def split: if_splits)

lemma varchar_opt_take: "varchar_opt n x = Some y \<Longrightarrow> y = map_option (take n) x"
  by (cases x) (auto simp: varchar_opt_def dest: varchar_take)

lemma coerce_values_Inr:
  assumes "coerce_values v = Inr w"
  obtains mid chan mdate where
    "v_message_id v = Some mid" "v_channel_name v = Some chan" "v_message_date v = Some mdate"
    "w = v\<lparr>v_channel_name := Some (take 100 chan),
            v_image_path := map_option (take 500) (v_image_path v)\<rparr>"
proof -
  from assms obtain c p where c: "varchar_opt 100 (v_channel_name v) = Some c"
    and p: "varchar_opt 500 (v_image_path v) = Some p"
    and nn: "v_message_id v \<noteq> None" "c \<noteq> None" "v_message_date v \<noteq> None"
    and w: "w = v\<lparr>v_channel_name := c, v_image_path := p\<rparr>"
    by (auto simp: coerce_values_def split: if_splits option.splits)
  from c have c': "c = map_option (take 100) (v_channel_name v)" by (rule varchar_opt_take)
  from p have p': "p = map_option (take 500) (v_image_path v)" by (rule varchar_opt_take)
  from nn(2) c' obtain chan where chan: "v_channel_name v = Some chan" by (cases "v_channel_name v") auto
  from nn(1,3) obtain mid mdate where "v_message_id v = Some mid" "v_message_date v = Some mdate"
    by auto
  with chan w c' p' that show thesis by simp
qed

lemma insert_sql_Inr:
  assumes "insert_sql ts tbl v = Inr tbl'"
  obtains w mid chan mdate where
    "coerce_values v = Inr w"
    "v_message_id v = Some mid" "v_channel_name v = Some chan" "v_message_date v = Some mdate"
    "w = v\<lparr>v_channel_name := Some (take 100 chan),
            v_image_path := map_option (take 500) (v_image_path v)\<rparr>"
    "tbl' = (if (mid, take 100 chan) \<in> set (map row_key tbl)
             then map (\<lambda>r. if row_key r = (mid, take 100 chan) then do_update w r else r) tbl
             else tbl @ [new_row ts mid (take 100 chan) mdate w])"
proof -
  from assms obtain w where w: "coerce_values v = Inr w"
    by (cases "coerce_values v") (auto simp: insert_sql_def)
  then obtain mid chan mdate where f:
    "v_message_id v = Some mid" "v_channel_name v = Some chan" "v_message_date v = Some mdate"
    "w = v\<lparr>v_channel_name := Some (take 100 chan),
            v_image_path := map_option (take 500) (v_image_path v)\<rparr>"
    by (rule coerce_values_Inr)
  from assms w f have "tbl' = (if (mid, take 100 chan) \<in> set (map row_key tbl)
             then map (\<lambda>r. if row_key r = (mid, take 100 chan) then do_update w r else r) tbl
             else tbl @ [new_row ts mid (take 100 chan) mdate w])"
    by (auto simp: insert_sql_def)
  with w f that show thesis by blast
qed

lemma row_key_do_update [simp]: "row_key (do_update v r) = row_key r"
  by (simp add: row_key_def do_update_def)

lemma row_key_new_row [simp]: "row_key (new_row ts mid chan mdate v) = (mid, chan)"
  by (simp add: row_key_def new_row_def)

text \<open>
  C4, as the code has it. The key of an upserted tuple is its \<open>message_id\<close> with its
  \<open>channel_name\<close> as the table stores it, cut to the hundred characters of the column. When
  a row with that key is present, the table keeps its rows in place; the row with that
  key gets the new \<open>message_text\<close>, \<open>views\<close>, \<open>forwards\<close>, \<open>scraped_at\<close> and \<open>raw_data\<close> and keeps
  its key, \<open>message_date\<close>, \<open>has_media\<close>, \<open>image_path\<close> and \<open>created_at\<close>; every other row is
  unchanged. When the key is absent, one row holding the tuple's values is appended.
\<close>

theorem insert_sql_upsert_frame:
  assumes "insert_sql ts tbl v = Inr tbl'"
    and "v_message_id v = Some mid" and "v_channel_name v = Some chan"
  shows "((mid, take 100 chan) \<in> set (map row_key tbl) \<longrightarrow>
           length tbl' = length tbl
           \<and> (\<forall>i < length tbl.
                (row_key (tbl ! i) = (mid, take 100 chan) \<longrightarrow>
                   col_message_text (tbl' ! i) = v_message_text v
                   \<and> col_views (tbl' ! i) = v_views v
                   \<and> col_forwards (tbl' ! i) = v_forwards v
                   \<and> col_scraped_at (tbl' ! i) = v_scraped_at v
                   \<and> col_raw_data (tbl' ! i) = v_raw_data v
                   \<and> row_key (tbl' ! i) = row_key (tbl ! i)
                   \<and> col_message_date (tbl' ! i) = col_message_date (tbl ! i)
                   \<and> col_has_media (tbl' ! i) = col_has_media (tbl ! i)
                   \<and> col_image_path (tbl' ! i) = col_image_path (tbl ! i)
                   \<and> col_created_at (tbl' ! i) = col_created_at (tbl ! i))
                \<and> (row_key (tbl ! i) \<noteq> (mid, take 100 chan) \<longrightarrow> tbl' ! i = tbl ! i)))
       \<and> ((mid, take 100 chan) \<notin> set (map row_key tbl) \<longrightarrow>
           (\<exists>mdate. v_message_date v = Some mdate
              \<and> tbl' = tbl @ [\<lparr>col_message_id = mid, col_channel_name = take 100 chan,
                    col_message_date = mdate, col_message_text = v_message_text v,
                    col_has_media = v_has_media v,
                    col_image_path = map_option (take 500) (v_image_path v),
                    col_views = v_views v, col_forwards = v_forwards v,
                    col_scraped_at = v_scraped_at v, col_raw_data = v_raw_data v,
                    col_created_at = ts\<rparr>]))"
proof -
  from assms(1) obtain w mid' chan' mdate where v:
    "v_message_id v = Some mid'" "v_channel_name v = Some chan'" "v_message_date v = Some mdate"
    and w: "w = v\<lparr>v_channel_name := Some (take 100 chan'),
            v_image_path := map_option (take 500) (v_image_path v)\<rparr>"
    and tbl': "tbl' = (if (mid', take 100 chan') \<in> set (map row_key tbl)
             then map (\<lambda>r. if row_key r = (mid', take 100 chan') then do_update w r else r) tbl
             else tbl @ [new_row ts mid' (take 100 chan') mdate w])"
    by (rule insert_sql_Inr)
  from v assms(2,3) have same: "mid' = mid" "chan' = chan" by simp_all
  let ?k = "(mid, take 100 chan)"
  show ?thesis
  proof (intro conjI impI)
    assume present: "?k \<in> set (map row_key tbl)"
    with tbl' same have upd:
      "tbl' = map (\<lambda>r. if row_key r = ?k then do_update w r else r) tbl"
      by simp
    then show "length tbl' = length tbl" by simp
    show "\<forall>i < length tbl.
            (row_key (tbl ! i) = ?k \<longrightarrow>
               col_message_text (tbl' ! i) = v_message_text v
               \<and> col_views (tbl' ! i) = v_views v
               \<and> col_forwards (tbl' ! i) = v_forwards v
               \<and> col_scraped_at (tbl' ! i) = v_scraped_at v
               \<and> col_raw_data (tbl' ! i) = v_raw_data v
               \<and> row_key (tbl' ! i) = row_key (tbl ! i)
               \<and> col_message_date (tbl' ! i) = col_message_date (tbl ! i)
               \<and> col_has_media (tbl' ! i) = col_has_media (tbl ! i)
               \<and> col_image_path (tbl' ! i) = col_image_path (tbl ! i)
               \<and> col_created_at (tbl' ! i) = col_created_at (tbl ! i))
            \<and> (row_key (tbl ! i) \<noteq> ?k \<longrightarrow> tbl' ! i = tbl ! i)"
      by (simp add: upd w do_update_def row_key_def)
  next
    assume "?k \<notin> set (map row_key tbl)"
    with tbl' same v w show "\<exists>mdate. v_message_date v = Some mdate
              \<and> tbl' = tbl @ [\<lparr>col_message_id = mid, col_channel_name = take 100 chan,
                    col_message_date = mdate, col_message_text = v_message_text v,
                    col_has_media = v_has_media v,
                    col_image_path = map_option (take 500) (v_image_path v),
                    col_views = v_views v, col_forwards = v_forwards v,
                    col_scraped_at = v_scraped_at v, col_raw_data = v_raw_data v,
                    col_created_at = ts\<rparr>]"
      by (simp add: new_row_def)
  qed
qed

theorem insert_sql_upsert_frame_witness:
  "insert_sql 200 [new_row 100 7 (u ''chemed'') 1000 (prepare_values scraped_first),
                   new_row 100 8 (u ''chemed'') 1001 (prepare_values scraped_first)]
       (prepare_values scraped_again)
     = Inr [\<lparr>col_message_id = 7, col_channel_name = u ''chemed'', col_message_date = 1000,
             col_message_text = Some (u ''Paracetamol 500mg''), col_has_media = Some True,
             col_image_path = None, col_views = Some 25, col_forwards = Some 1,
             col_scraped_at = Some 9000, col_raw_data = scraped_again, col_created_at = 100\<rparr>,
            new_row 100 8 (u ''chemed'') 1001 (prepare_values scraped_first)]
   \<and> insert_sql 200 [] (prepare_values scraped_again)
     = Inr [\<lparr>col_message_id = 7, col_channel_name = u ''chemed'', col_message_date = 1000,
             col_message_text = Some (u ''Paracetamol 500mg''), col_has_media = Some True,
             col_image_path = Some (u ''data/raw/images/chemed/7.jpg''), col_views = Some 25,
             col_forwards = Some 1, col_scraped_at = Some 9000, col_raw_data = scraped_again,
             col_created_at = 200\<rparr>]"
  using insert_sql_upsert_frame
      [of 200 "[new_row 100 7 (u ''chemed'') 1000 (prepare_values scraped_first),
                new_row 100 8 (u ''chemed'') 1001 (prepare_values scraped_first)]"
          "prepare_values scraped_again"
          "[\<lparr>col_message_id = 7, col_channel_name = u ''chemed'', col_message_date = 1000,
             col_message_text = Some (u ''Paracetamol 500mg''), col_has_media = Some True,
             col_image_path = None, col_views = Some 25, col_forwards = Some 1,
             col_scraped_at = Some 9000, col_raw_data = scraped_again, col_created_at = 100\<rparr>,
            new_row 100 8 (u ''chemed'') 1001 (prepare_values scraped_first)]"
          7 "u ''chemed''"]
    insert_sql_upsert_frame
      [of 200 "[]" "prepare_values scraped_again"
          "[new_row 200 7 (u ''chemed'') 1000 (prepare_values scraped_again)]" 7 "u ''chemed''"]
  by (simp add: insert_sql_def coerce_values_def valid_opt_def valid_text_def scalar_def
      message_texts_def List.map_filter_simps varchar_opt_def varchar_def in_range_def
      prepare_values_def get_def get_default_def scraped_again_def scraped_first_def
      new_row_def do_update_def row_key_def u_def)

text \<open>
  The claim as the specification states it fails on the media reference: a later scrape
  that brings the path of the downloaded photo is upserted over the row of an earlier
  scrape without one, and the row keeps \<open>NULL\<close> in \<open>image_path\<close>.
\<close>

theorem insert_sql_image_path_counterexample:
  "insert_sql 200 [new_row 100 7 (u ''chemed'') 1000 (prepare_values scraped_first)]
       (prepare_values scraped_again)
     = Inr [(new_row 100 7 (u ''chemed'') 1000 (prepare_values scraped_again))
              \<lparr>col_image_path := None\<rparr>]
   \<and> v_image_path (prepare_values scraped_again) = Some (u ''data/raw/images/chemed/7.jpg'')"
  by (simp add: insert_sql_def coerce_values_def valid_opt_def valid_text_def scalar_def
      message_texts_def List.map_filter_simps varchar_opt_def varchar_def in_range_def
      prepare_values_def get_def get_default_def scraped_again_def scraped_first_def
      new_row_def do_update_def row_key_def u_def)

subsection \<open>Loading a record twice\<close>

lemma load_batch_single:
  assumes "check_values v = None"
    and "v_message_id v = Some mid" and "v_channel_name v = Some chan"
    and "v_message_date v = Some mdate"
  shows "load_batch ts st [v] =
     (None, log_event (LoadedMessages 1)
        (st\<lparr>table :=
           (if (mid, take 100 chan) \<in> set (map row_key (table st))
            then map (\<lambda>r. if row_key r = (mid, take 100 chan)
                          then do_update (v\<lparr>v_channel_name := Some (take 100 chan),
                                 v_image_path := map_option (take 500) (v_image_path v)\<rparr>) r
                          else r) (table st)
            else table st @ [new_row ts mid (take 100 chan) mdate
                   (v\<lparr>v_channel_name := Some (take 100 chan),
                      v_image_path := map_option (take 500) (v_image_path v)\<rparr>)])\<rparr>))"
proof -
  from assms(1) obtain w where w: "coerce_values v = Inr w"
    by (cases "coerce_values v") (auto simp: check_values_def)
  then obtain mid' chan' mdate' where
    "v_message_id v = Some mid'" "v_channel_name v = Some chan'" "v_message_date v = Some mdate'"
    "w = v\<lparr>v_channel_name := Some (take 100 chan'),
            v_image_path := map_option (take 500) (v_image_path v)\<rparr>"
    by (rule coerce_values_Inr)
  with assms(2-4) have "w = v\<lparr>v_channel_name := Some (take 100 chan),
            v_image_path := map_option (take 500) (v_image_path v)\<rparr>"
    by simp
  with w assms(2-4) show ?thesis
    by (simp add: load_batch_def insert_sql_def)
qed

lemma table_log_event [simp]: "table (log_event e st) = table st"
  by (simp add: log_event_def)

lemma keys_after_update [simp]:
  "map row_key (map (\<lambda>r. if row_key r = k then do_update v r else r) tbl) = map row_key tbl"
  by (induction tbl) auto

lemma filter_key_one:
  "distinct (map row_key tbl) \<Longrightarrow> k \<in> set (map row_key tbl)
     \<Longrightarrow> length (filter (\<lambda>r. row_key r = k) tbl) = 1"
proof (induction tbl)
  case Nil
  then show ?case by simp
next
  case (Cons r tbl)
  show ?case
  proof (cases "row_key r = k")
    case True
    with Cons.prems have "k \<notin> set (map row_key tbl)" by auto
    then have "filter (\<lambda>r. row_key r = k) tbl = []"
      by (auto simp: filter_empty_conv)
    with True show ?thesis by simp
  next
    case False
    with Cons show ?thesis by auto
  qed
qed

lemma update_absent:
  "k \<notin> set (map row_key tbl) \<Longrightarrow> map (\<lambda>r. if row_key r = k then f r else r) tbl = tbl"
  by (induction tbl) auto

lemma do_update_twice: "do_update v2 (do_update v1 r) = do_update v2 r"
  by (simp add: do_update_def)

lemma do_update_new_row:
  assumes "v_has_media v1 = v_has_media v2" and "v_image_path v1 = v_image_path v2"
  shows "do_update v2 (new_row ts mid chan mdate v1) = new_row ts mid chan mdate v2"
  using assms by (simp add: do_update_def new_row_def)

lemma col_do_update [simp]:
  "col_message_text (do_update v r) = v_message_text v"
  "col_views (do_update v r) = v_views v"
  "col_forwards (do_update v r) = v_forwards v"
  "col_scraped_at (do_update v r) = v_scraped_at v"
  "col_raw_data (do_update v r) = v_raw_data v"
  by (simp_all add: do_update_def)

text \<open>The table after two upserts with the same key, at \<open>ts1\<close> and then at \<open>ts2\<close>.\<close>

lemma upsert_twice_table:
  fixes tbl :: "table_row list" and mid :: int and chan :: utext
    and v1 v2 :: insert_values and ts1 mdate1 mdate2 :: int
  assumes "distinct (map row_key tbl)"
  defines "T1 \<equiv> (if (mid, chan) \<in> set (map row_key tbl)
            then map (\<lambda>r. if row_key r = (mid, chan) then do_update v1 r else r) tbl
            else tbl @ [new_row ts1 mid chan mdate1 v1])"
  defines "T2 \<equiv> map (\<lambda>r. if row_key r = (mid, chan) then do_update v2 r else r) T1"
  shows "(mid, chan) \<in> set (map row_key T1)"
    and "distinct (map row_key T2)"
    and "(mid, chan) \<in> set (map row_key T2)"
    and "\<forall>r \<in> set T2. row_key r = (mid, chan) \<longrightarrow>
           col_message_text r = v_message_text v2 \<and> col_views r = v_views v2
           \<and> col_forwards r = v_forwards v2 \<and> col_scraped_at r = v_scraped_at v2
           \<and> col_raw_data r = v_raw_data v2"
    and "(mid, chan) \<in> set (map row_key tbl)
           \<or> mdate1 = mdate2 \<and> v_has_media v1 = v_has_media v2 \<and> v_image_path v1 = v_image_path v2
         \<Longrightarrow> T2 = (if (mid, chan) \<in> set (map row_key tbl)
                  then map (\<lambda>r. if row_key r = (mid, chan) then do_update v2 r else r) tbl
                  else tbl @ [new_row ts1 mid chan mdate2 v2])"
proof -
  have keys1: "map row_key T1 =
      (if (mid, chan) \<in> set (map row_key tbl) then map row_key tbl
       else map row_key tbl @ [(mid, chan)])"
    unfolding T1_def by (simp only: keys_after_update map_append list.map row_key_new_row if_distrib
        [of "map row_key"])
  have keys2: "map row_key T2 = map row_key T1"
    unfolding T2_def by (rule keys_after_update)
  show in1: "(mid, chan) \<in> set (map row_key T1)"
    unfolding keys1 by (cases "(mid, chan) \<in> set (map row_key tbl)") simp_all
  have d1: "distinct (map row_key T1)"
    unfolding keys1 using assms(1) by (cases "(mid, chan) \<in> set (map row_key tbl)") simp_all
  show "distinct (map row_key T2)"
    using d1 by (simp only: keys2)
  show "(mid, chan) \<in> set (map row_key T2)"
    using in1 by (simp only: keys2)
  show "\<forall>r \<in> set T2. row_key r = (mid, chan) \<longrightarrow>
           col_message_text r = v_message_text v2 \<and> col_views r = v_views v2
           \<and> col_forwards r = v_forwards v2 \<and> col_scraped_at r = v_scraped_at v2
           \<and> col_raw_data r = v_raw_data v2"
    by (auto simp: T2_def)
  show "T2 = (if (mid, chan) \<in> set (map row_key tbl)
                  then map (\<lambda>r. if row_key r = (mid, chan) then do_update v2 r else r) tbl
                  else tbl @ [new_row ts1 mid chan mdate2 v2])"
    if "(mid, chan) \<in> set (map row_key tbl)
           \<or> mdate1 = mdate2 \<and> v_has_media v1 = v_has_media v2 \<and> v_image_path v1 = v_image_path v2"
  proof (cases "(mid, chan) \<in> set (map row_key tbl)")
    case True
    then show ?thesis
      by (simp add: T2_def T1_def do_update_twice cong: if_cong)
  next
    case False
    then show ?thesis
      using that by (simp add: T2_def T1_def update_absent do_update_new_row)
  qed
qed

text \<open>
  C3, as the code has it. Let two versions of a record with the same key
  \<open>(message_id, channel_name)\<close>, both acceptable to the table, be loaded one after the other
  into a table with unique keys. Both loads commit; the table then has exactly one row
  with that key (the channel name as the table stores it, cut to the hundred characters
  of the column), and it holds the later version's \<open>message_text\<close>, \<open>views\<close>, \<open>forwards\<close>,
  \<open>scraped_at\<close> and \<open>raw_data\<close>. The table equals the one left by loading only the later
  version (at the time of the first load, which \<open>created_at\<close> records) whenever the key was
  already stored or the two versions agree on \<open>message_date\<close>, \<open>has_media\<close> and
  \<open>image_path\<close>, the columns the upsert does not overwrite.
\<close>

theorem load_batch_twice:
  assumes "distinct (map row_key (table st))"
    and "check_values v1 = None" and "check_values v2 = None"
    and "v_message_id v1 = Some mid" and "v_channel_name v1 = Some chan"
    and "v_message_id v2 = Some mid" and "v_channel_name v2 = Some chan"
    and "load_batch ts1 st [v1] = (x1, st1)"
    and "load_batch ts2 st1 [v2] = (x2, st2)"
    and "load_batch ts1 st [v2] = (x3, st3)"
  shows "x1 = None \<and> x2 = None \<and> x3 = None
     \<and> length (filter (\<lambda>r. row_key r = (mid, take 100 chan)) (table st2)) = 1
     \<and> (\<forall>r \<in> set (table st2). row_key r = (mid, take 100 chan) \<longrightarrow>
           col_message_text r = v_message_text v2 \<and> col_views r = v_views v2
           \<and> col_forwards r = v_forwards v2 \<and> col_scraped_at r = v_scraped_at v2
           \<and> col_raw_data r = v_raw_data v2)
     \<and> ((mid, take 100 chan) \<in> set (map row_key (table st))
          \<or> v_message_date v1 = v_message_date v2 \<and> v_has_media v1 = v_has_media v2
            \<and> v_image_path v1 = v_image_path v2
        \<longrightarrow> table st2 = table st3)"
proof -
  from assms(2) obtain u1 where "coerce_values v1 = Inr u1"
    by (cases "coerce_values v1") (auto simp: check_values_def)
  then obtain mdate1 where d1: "v_message_date v1 = Some mdate1"
    by (rule coerce_values_Inr)
  from assms(3) obtain u2 where "coerce_values v2 = Inr u2"
    by (cases "coerce_values v2") (auto simp: check_values_def)
  then obtain mdate2 where d2: "v_message_date v2 = Some mdate2"
    by (rule coerce_values_Inr)
  let ?k = "(mid, take 100 chan)"
  let ?w1 = "v1\<lparr>v_channel_name := Some (take 100 chan),
                 v_image_path := map_option (take 500) (v_image_path v1)\<rparr>"
  let ?w2 = "v2\<lparr>v_channel_name := Some (take 100 chan),
                 v_image_path := map_option (take 500) (v_image_path v2)\<rparr>"
  let ?T1 = "if ?k \<in> set (map row_key (table st))
            then map (\<lambda>r. if row_key r = ?k then do_update ?w1 r else r) (table st)
            else table st @ [new_row ts1 mid (take 100 chan) mdate1 ?w1]"
  let ?T2 = "map (\<lambda>r. if row_key r = ?k then do_update ?w2 r else r) ?T1"
  note tw = upsert_twice_table [OF assms(1)]
  have r1: "x1 = None" "table st1 = ?T1"
    using load_batch_single [OF assms(2) assms(4) assms(5) d1, of ts1 st] assms(8)
    by simp_all
  have in1: "?k \<in> set (map row_key (table st1))"
    using tw(1) r1(2) by simp
  have r2: "x2 = None" "table st2 = ?T2"
    using load_batch_single [OF assms(3) assms(6) assms(7) d2, of ts2 st1] assms(9) in1 r1(2)
    by simp_all
  have r3: "x3 = None"
    "table st3 = (if ?k \<in> set (map row_key (table st))
            then map (\<lambda>r. if row_key r = ?k then do_update ?w2 r else r) (table st)
            else table st @ [new_row ts1 mid (take 100 chan) mdate2 ?w2])"
    using load_batch_single [OF assms(3) assms(6) assms(7) d2, of ts1 st] assms(10)
    by simp_all
  have one: "length (filter (\<lambda>r. row_key r = ?k) (table st2)) = 1"
    unfolding r2(2) using tw(2) tw(3) by (rule filter_key_one)
  have "\<forall>r \<in> set (table st2). row_key r = ?k \<longrightarrow>
           col_message_text r = v_message_text ?w2 \<and> col_views r = v_views ?w2
           \<and> col_forwards r = v_forwards ?w2 \<and> col_scraped_at r = v_scraped_at ?w2
           \<and> col_raw_data r = v_raw_data ?w2"
    unfolding r2(2) by (rule tw(4))
  then have latest: "\<forall>r \<in> set (table st2). row_key r = ?k \<longrightarrow>
           col_message_text r = v_message_text v2 \<and> col_views r = v_views v2
           \<and> col_forwards r = v_forwards v2 \<and> col_scraped_at r = v_scraped_at v2
           \<and> col_raw_data r = v_raw_data v2"
    by simp
  have same: "table st2 = table st3"
    if "?k \<in> set (map row_key (table st))
          \<or> v_message_date v1 = v_message_date v2 \<and> v_has_media v1 = v_has_media v2
            \<and> v_image_path v1 = v_image_path v2"
  proof -
    from that d1 d2 have "?k \<in> set (map row_key (table st))
        \<or> mdate1 = mdate2 \<and> v_has_media ?w1 = v_has_media ?w2
          \<and> v_image_path ?w1 = v_image_path ?w2"
      by auto
    from tw(5) [OF this] show ?thesis
      unfolding r2(2) r3(2) .
  qed
  from r1(1) r2(1) r3(1) one latest same show ?thesis by blast
qed

theorem load_batch_twice_witness:
  "table (snd (load_batch 200
       (snd (load_batch 100 \<lparr>table = [], logged = []\<rparr> [prepare_values scraped_first]))
       [prepare_values (scraped_first\<lparr>views := Val 25, scraped_at := Val 9000\<rparr>)]))
     = table (snd (load_batch 100 \<lparr>table = [], logged = []\<rparr>
         [prepare_values (scraped_first\<lparr>views := Val 25, scraped_at := Val 9000\<rparr>)]))
   \<and> map col_views (table (snd (load_batch 200
       (snd (load_batch 100 \<lparr>table = [], logged = []\<rparr> [prepare_values scraped_first]))
       [prepare_values (scraped_first\<lparr>views := Val 25, scraped_at := Val 9000\<rparr>)]))) = [Some 25]"
  using load_batch_twice
    [of "\<lparr>table = [], logged = []\<rparr>" "prepare_values scraped_first"
        "prepare_values (scraped_first\<lparr>views := Val 25, scraped_at := Val 9000\<rparr>)"
        7 "u ''chemed''" 100
        "fst (load_batch 100 \<lparr>table = [], logged = []\<rparr> [prepare_values scraped_first])"
        "snd (load_batch 100 \<lparr>table = [], logged = []\<rparr> [prepare_values scraped_first])"
        200
        "fst (load_batch 200
           (snd (load_batch 100 \<lparr>table = [], logged = []\<rparr> [prepare_values scraped_first]))
           [prepare_values (scraped_first\<lparr>views := Val 25, scraped_at := Val 9000\<rparr>)])"
        "snd (load_batch 200
           (snd (load_batch 100 \<lparr>table = [], logged = []\<rparr> [prepare_values scraped_first]))
           [prepare_values (scraped_first\<lparr>views := Val 25, scraped_at := Val 9000\<rparr>)])"
        "fst (load_batch 100 \<lparr>table = [], logged = []\<rparr>
           [prepare_values (scraped_first\<lparr>views := Val 25, scraped_at := Val 9000\<rparr>)])"
        "snd (load_batch 100 \<lparr>table = [], logged = []\<rparr>
           [prepare_values (scraped_first\<lparr>views := Val 25, scraped_at := Val 9000\<rparr>)])"]
  by (simp add: load_batch_def insert_sql_def check_values_def coerce_values_def valid_opt_def
      valid_text_def scalar_def message_texts_def List.map_filter_simps varchar_opt_def
      varchar_def in_range_def prepare_values_def get_def get_default_def scraped_first_def
      new_row_def do_update_def row_key_def log_event_def u_def)

text \<open>
  The claim as the specification states it fails when the two versions differ in the media
  reference: loading the scrape without a photo and then the scrape with one leaves a row
  whose \<open>image_path\<close> is \<open>NULL\<close>, which is not the table that loading the later version alone
  leaves, whatever the time of that load.
\<close>

theorem load_batch_twice_counterexample:
  "map col_image_path (table (snd (load_batch 200
       (snd (load_batch 100 \<lparr>table = [], logged = []\<rparr> [prepare_values scraped_first]))
       [prepare_values scraped_again]))) = [None]
   \<and> map col_image_path (table (snd (load_batch 100 \<lparr>table = [], logged = []\<rparr>
       [prepare_values scraped_again]))) = [Some (u ''data/raw/images/chemed/7.jpg'')]
   \<and> map col_image_path (table (snd (load_batch 200 \<lparr>table = [], logged = []\<rparr>
       [prepare_values scraped_again]))) = [Some (u ''data/raw/images/chemed/7.jpg'')]"
  by (simp add: load_batch_def insert_sql_def check_values_def coerce_values_def valid_opt_def
      valid_text_def scalar_def message_texts_def List.map_filter_simps varchar_opt_def
      varchar_def in_range_def prepare_values_def get_def get_default_def scraped_first_def
      scraped_again_def new_row_def do_update_def row_key_def log_event_def u_def)

subsection \<open>A batch that fails\<close>

lemma load_batch_failed:
  assumes "execute_batch ts (table st) b = Inl e"
  shows "load_batch ts st b = (Some e, st\<lparr>logged := logged st @ [ErrorLoadingBatch e]\<rparr>)"
proof -
  from assms have "b \<noteq> []" by auto
  with assms show ?thesis by (simp add: load_batch_def log_event_def)
qed

lemma load_batches_append:
  "load_batches tx st (xs @ ys) =
     (case load_batches tx st xs of
        (None, st') \<Rightarrow> load_batches tx st' ys
      | (Some e, st') \<Rightarrow> (Some e, st'))"
proof (induction xs arbitrary: st)
  case Nil
  then show ?case by simp
next
  case (Cons x xs)
  obtain j b where x: "x = (j, b)" by (cases x)
  show ?case
    by (cases "load_batch (tx j) st b") (auto simp: x Cons.IH split: option.splits)
qed

lemma load_files_append:
  "load_files now tx bs st tot (xs @ ys) =
     (case load_files now tx bs st tot xs of
        (None, st', tot') \<Rightarrow> load_files now tx bs st' tot' ys
      | (Some e, st', tot') \<Rightarrow> (Some e, st', tot'))"
proof (induction xs arbitrary: st tot)
  case Nil
  then show ?case by simp
next
  case (Cons x xs)
  obtain k src where x: "x = (k, src)" by (cases x)
  show ?case
    by (auto simp: x Cons.IH split: prod.splits sum.splits option.splits)
qed

text \<open>
  C8, as the code has it. Let the files before some file load without error, and let a
  batch of that file fail (a tuple the table rejects) after the batches before it have
  been committed. Then the failed batch is rolled back as a whole, the error is logged
  and raised, and the run ends with that error: the table is the one left by the batches
  committed before, and neither the rest of the failed batch nor any later batch or file
  is loaded. Nothing is retried.
\<close>

theorem run_stops_at_failed_batch:
  assumes "load_files now tx batch_size \<lparr>table = tbl, logged = []\<rparr> 0 (enumerate 0 loaded)
             = (None, st, tot)"
    and "process_json_file (now (length loaded)) json_file st = (messages, st1)"
    and "messages \<noteq> []"
    and "batches batch_size (prepare_batch_data messages) = Inr (before @ batch # later)"
    and "load_batches (tx (length loaded)) st1 (enumerate 0 before) = (None, st2)"
    and "execute_batch (tx (length loaded) (length before)) (table st2) batch = Inl e"
  shows "run now tx batch_size True tbl (loaded @ json_file # files)
           = (Some e, st2\<lparr>logged := logged st2 @ [ErrorLoadingBatch e, FatalError e]\<rparr>)"
proof -
  have failed: "load_batch (tx (length loaded) (length before)) st2 batch
      = (Some e, st2\<lparr>logged := logged st2 @ [ErrorLoadingBatch e]\<rparr>)"
    using assms(6) by (rule load_batch_failed)
  have inner: "load_batches (tx (length loaded)) st1 (enumerate 0 (before @ batch # later))
      = (Some e, st2\<lparr>logged := logged st2 @ [ErrorLoadingBatch e]\<rparr>)"
    by (simp add: enumerate_append_eq load_batches_append assms(5) failed)
  have this_file: "load_files now tx batch_size st tot
        ((length loaded, json_file) # enumerate (Suc (length loaded)) files)
      = (Some e, st2\<lparr>logged := logged st2 @ [ErrorLoadingBatch e]\<rparr>, tot)"
    unfolding load_files.simps assms(2) prod.case assms(4) sum.case inner
    using assms(3) by simp
  have "load_files now tx batch_size \<lparr>table = tbl, logged = []\<rparr> 0
        (enumerate 0 (loaded @ json_file # files))
      = (Some e, st2\<lparr>logged := logged st2 @ [ErrorLoadingBatch e]\<rparr>, tot)"
    by (simp add: enumerate_append_eq load_files_append assms(1) this_file del: load_files.simps)
  then show ?thesis
    by (simp add: run_def log_event_def)
qed
theorem run_stops_at_failed_batch_witness:
  "run (\<lambda>k i. 5000) (\<lambda>k j. 6000 + int j) 1 True []
       [(''a.json'', Some [scraped_first, without_id, scraped_again]),
        (''b.json'', Some [scraped_again])]
     = (Some (NotNullViolation ''message_id''),
        \<lparr>table = [new_row 6000 7 (u ''chemed'') 1000
                    (prepare_values (scraped_first\<lparr>file_path := Val (u ''a.json''),
                                                   processed_at := Val 5000\<rparr>))],
         logged = [LoadedMessages 1, ErrorLoadingBatch (NotNullViolation ''message_id''),
                   FatalError (NotNullViolation ''message_id'')]\<rparr>)"
  using run_stops_at_failed_batch
    [where now = "\<lambda>k i. 5000" and tx = "\<lambda>k j. 6000 + int j" and batch_size = 1 and tbl = "[]"
       and loaded = "[]" and st = "\<lparr>table = [], logged = []\<rparr>" and tot = 0
       and json_file = "(''a.json'', Some [scraped_first, without_id, scraped_again])"
       and ?messages = "[scraped_first\<lparr>file_path := Val (u ''a.json''), processed_at := Val 5000\<rparr>,
                       without_id\<lparr>file_path := Val (u ''a.json''), processed_at := Val 5000\<rparr>,
                       scraped_again\<lparr>file_path := Val (u ''a.json''), processed_at := Val 5000\<rparr>]"
       and ?st1.0 = "\<lparr>table = [], logged = []\<rparr>"
       and before = "[[prepare_values (scraped_first\<lparr>file_path := Val (u ''a.json''),
                                                      processed_at := Val 5000\<rparr>)]]"
       and batch = "[prepare_values (without_id\<lparr>file_path := Val (u ''a.json''),
                                                 processed_at := Val 5000\<rparr>)]"
       and later = "[[prepare_values (scraped_again\<lparr>file_path := Val (u ''a.json''),
                                                     processed_at := Val 5000\<rparr>)]]"
       and ?st2.0 = "\<lparr>table = [new_row 6000 7 (u ''chemed'') 1000
                    (prepare_values (scraped_first\<lparr>file_path := Val (u ''a.json''),
                                                   processed_at := Val 5000\<rparr>))],
                   logged = [LoadedMessages 1]\<rparr>"
       and e = "NotNullViolation ''message_id''"
       and files = "[(''b.json'', Some [scraped_again])]"]
  by (simp add: process_json_file_def batches_def slices.simps prepare_batch_data_def
      load_batch_def insert_sql_def coerce_values_def valid_opt_def valid_text_def scalar_def
      message_texts_def List.map_filter_simps varchar_opt_def varchar_def in_range_def
      prepare_values_def get_def get_default_def scraped_first_def scraped_again_def
      without_id_def new_row_def row_key_def log_event_def u_def)

text \<open>
  The claim as the specification states it fails: with the default batch size, a file
  whose first message lacks its identifier makes the one batch of the file fail. The
  valid message of that batch is not loaded by a retry on smaller batches, and the next
  file is not loaded at all, although it loads when the run holds it alone.
\<close>

theorem run_no_bisection_counterexample:
  "run (\<lambda>k i. 5000) (\<lambda>k j. 6000) 100 True []
       [(''a.json'', Some [without_id, scraped_first]), (''b.json'', Some [scraped_again])]
     = (Some (NotNullViolation ''message_id''),
        \<lparr>table = [],
         logged = [ErrorLoadingBatch (NotNullViolation ''message_id''),
                   FatalError (NotNullViolation ''message_id'')]\<rparr>)
   \<and> map row_key (table (snd (run (\<lambda>k i. 5000) (\<lambda>k j. 6000) 100 True []
       [(''b.json'', Some [scraped_again])]))) = [(7, u ''chemed'')]"
  by (simp add: run_def process_json_file_def batches_def slices.simps prepare_batch_data_def
      load_batch_def insert_sql_def coerce_values_def valid_opt_def valid_text_def scalar_def
      message_texts_def List.map_filter_simps varchar_opt_def varchar_def in_range_def
      prepare_values_def get_def get_default_def scraped_first_def scraped_again_def
      without_id_def new_row_def row_key_def log_event_def u_def)

subsection \<open>A pass over one channel\<close>

lemma window_split: "items = map Yield (in_window s items) @ after_window s items"
  by (induction s items rule: in_window.induct) auto



lemma collect_window:
  "collect clock channel s i acc items =
     (if raises (after_window s items)
      then Inl (case after_window s items of Raise e # rest \<Rightarrow> e | _ \<Rightarrow> OtherError)
      else Inr (acc @ process_all clock channel i (in_window s items)))"
proof (induction clock channel s i acc items rule: collect.induct)
  case (1 clock channel start i messages)
  then show ?case by (simp add: raises_def)
next
  case (2 clock channel start i messages e items)
  then show ?case by (simp add: raises_def)
next
  case (3 clock channel start i messages message items)
  show ?case
  proof (cases "tg_date message < start")
    case True
    then show ?thesis by (simp add: raises_def)
  next
    case False
    then show ?thesis
      using 3 by (cases "process_message (clock i) message channel") simp_all
  qed
qed

lemma scrape_channel_window:
  "scrape_channel clock channel end_date days_back source =
     (if fst source \<noteq> None \<or> date_overflow end_date days_back
         \<or> raises (after_window (start_date end_date days_back) (snd source))
      then []
      else process_all clock channel 0 (in_window (start_date end_date days_back) (snd source)))"
  by (cases "fst source") (simp_all add: scrape_channel_def collect_window)

lemma process_all_dates:
  "map message_date (process_all clock channel i ms)
     = map (\<lambda>m. Val (tg_date m)) (filter (\<lambda>m. \<not> tg_broken m) ms)"
  by (induction ms arbitrary: i) (auto simp: process_message_def)

lemma process_all_ids:
  "map message_id (process_all clock channel i ms)
     = map (\<lambda>m. Val (tg_id m)) (filter (\<lambda>m. \<not> tg_broken m) ms)"
  by (induction ms arbitrary: i) (auto simp: process_message_def)

lemma yielded_append: "yielded (xs @ ys) = yielded xs @ yielded ys"
  by (induction xs rule: yielded.induct) auto

lemma yielded_map_Yield: "yielded (map Yield ms) = ms"
  by (induction ms) auto

lemma process_all_from:
  "p \<in> set (process_all clock channel i ms) \<Longrightarrow> \<exists>m \<in> set ms. message_date p = Val (tg_date m)"
  by (induction ms arbitrary: i) (auto simp: process_message_def split: if_splits)

lemma in_window_yielded: "set (in_window s items) \<subseteq> set (yielded items)"
  by (induction s items rule: in_window.induct) auto

lemma in_window_all:
  "\<forall>m \<in> set ms. s \<le> tg_date m \<Longrightarrow>
     in_window s (map Yield ms) = ms \<and> after_window s (map Yield ms) = []"
  by (induction ms) auto

lemma delivered_yielded:
  "set (yielded (snd (delivered tc end_date))) \<subseteq> set (iter_messages (history tc) end_date True)"
proof (cases "breaks_off tc")
  case None
  then show ?thesis by (simp add: delivered_def yielded_map_Yield)
next
  case (Some ke)
  obtain k e where "ke = (k, e)" by (cases ke)
  with Some show ?thesis
    using set_take_subset [of k "iter_messages (history tc) end_date True"]
    by (simp add: delivered_def yielded_append yielded_map_Yield)
qed

lemma in_window_sorted:
  assumes "sorted (map tg_date (yielded items))"
  shows "sorted (map tg_date (in_window s items))"
proof -
  have "yielded items = in_window s items @ yielded (after_window s items)"
    using window_split [of items s] yielded_append yielded_map_Yield by metis
  with assms show ?thesis by (simp add: sorted_append)
qed

lemma delivered_sorted:
  assumes "sorted (map tg_date (history tc))"
  shows "sorted (map tg_date (yielded (snd (delivered tc end_date))))"
proof -
  let ?ms = "iter_messages (history tc) end_date True"
  from assms have ms: "sorted (map tg_date ?ms)"
    by (simp add: iter_messages_def sorted_filter)
  show ?thesis
  proof (cases "breaks_off tc")
    case None
    with ms show ?thesis by (simp add: delivered_def yielded_map_Yield)
  next
    case (Some ke)
    obtain k e where ke: "ke = (k, e)" by (cases ke)
    from ms have "sorted (take k (map tg_date ?ms))" by (rule sorted_wrt_take)
    then have "sorted (map tg_date (take k ?ms))" by (simp add: take_map)
    with Some ke show ?thesis
      by (simp add: delivered_def yielded_append yielded_map_Yield)
  qed
qed

subsection \<open>What a pass collects of a channel\<close>

text \<open>
  C7. The iterator is asked with \<open>offset_date=end_date\<close> and \<open>reverse=True\<close>, for which it
  delivers the messages dated after \<open>end_date\<close>, the moment at which the pass began. So
  every record that a pass over a channel produces is dated after the end of the window,
  and no message of the window, from \<open>start_date\<close> to \<open>end_date\<close>, is ever collected. With
  \<open>days_back\<close> not negative the break of the loop is never reached: when neither
  \<open>get_entity\<close>, nor the date range, nor the iterator raises an error, the pass goes on
  to the last message of the channel and produces the records of all the readable
  messages dated after \<open>end_date\<close>, in the order of the channel. The records of a pass
  are in ascending order of date when the messages of the channel are.
\<close>

theorem scrape_channel_at_after_end:
  "(\<forall>p \<in> set (scrape_channel_at clock channel end_date days_back tc).
       \<exists>t. message_date p = Val t \<and> end_date < t)
   \<and> (0 \<le> days_back \<and> entity_error tc = None \<and> breaks_off tc = None
        \<and> \<not> date_overflow end_date days_back \<longrightarrow>
        map message_id (scrape_channel_at clock channel end_date days_back tc)
          = map (\<lambda>m. Val (tg_id m))
              (filter (\<lambda>m. \<not> tg_broken m) (filter (\<lambda>m. end_date < tg_date m) (history tc))))
   \<and> (sorted (map tg_date (history tc)) \<longrightarrow>
        (\<exists>ds. map message_date (scrape_channel_at clock channel end_date days_back tc) = map Val ds
            \<and> sorted ds))"
proof (intro conjI ballI impI)
  assume "sorted (map tg_date (history tc))"
  then have "sorted (map tg_date
      (in_window (start_date end_date days_back) (snd (delivered tc end_date))))"
    by (intro in_window_sorted delivered_sorted)
  then have sorted_taken: "sorted (map tg_date (filter (\<lambda>m. \<not> tg_broken m)
      (in_window (start_date end_date days_back) (snd (delivered tc end_date)))))"
    by (rule sorted_filter)
  let ?result = "scrape_channel_at clock channel end_date days_back tc"
  show "\<exists>ds. map message_date ?result = map Val ds \<and> sorted ds"
  proof (cases "?result = []")
    case True
    then have "map message_date ?result = map Val [] \<and> sorted ([] :: int list)" by simp
    then show ?thesis by blast
  next
    case False
    then have "map message_date ?result
        = map Val (map tg_date (filter (\<lambda>m. \<not> tg_broken m)
            (in_window (start_date end_date days_back) (snd (delivered tc end_date)))))"
      by (simp add: scrape_channel_at_def scrape_channel_window process_all_dates
          split: if_splits)
    with sorted_taken show ?thesis by blast
  qed
next
  fix p
  assume "p \<in> set (scrape_channel_at clock channel end_date days_back tc)"
  then have "p \<in> set (process_all clock channel 0
      (in_window (start_date end_date days_back) (snd (delivered tc end_date))))"
    by (simp add: scrape_channel_at_def scrape_channel_window split: if_splits)
  then obtain m where m: "m \<in> set (in_window (start_date end_date days_back)
      (snd (delivered tc end_date)))" "message_date p = Val (tg_date m)"
    using process_all_from by blast
  from m(1) have "m \<in> set (iter_messages (history tc) end_date True)"
    using in_window_yielded delivered_yielded by blast
  then have "end_date < tg_date m" by (simp add: iter_messages_def)
  with m(2) show "\<exists>t. message_date p = Val t \<and> end_date < t" by blast
next
  assume a: "0 \<le> days_back \<and> entity_error tc = None \<and> breaks_off tc = None
      \<and> \<not> date_overflow end_date days_back"
  let ?ms = "filter (\<lambda>m. end_date < tg_date m) (history tc)"
  have "0 \<le> days_back * one_day" using a by (simp add: one_day_def)
  then have "\<forall>m \<in> set ?ms. start_date end_date days_back \<le> tg_date m"
    by (auto simp: start_date_def)
  from in_window_all [OF this] a
  have "scrape_channel_at clock channel end_date days_back tc = process_all clock channel 0 ?ms"
    by (simp add: scrape_channel_at_def scrape_channel_window delivered_def iter_messages_def
        raises_def)
  then show "map message_id (scrape_channel_at clock channel end_date days_back tc)
      = map (\<lambda>m. Val (tg_id m)) (filter (\<lambda>m. \<not> tg_broken m) ?ms)"
    by (simp add: process_all_ids)
qed

text \<open>
  A pass begun on day 10 that looks back seven days, over a channel holding a message of
  day 5 and a message posted a second after the pass began: the message of day 5,
  inside the window, is not collected; the later one is. Over a channel holding the
  message of day 5 alone the pass collects nothing.
\<close>

theorem scrape_channel_at_after_end_witness:
  "map message_id (scrape_channel_at (\<lambda>i. 9) ''chemed'' (10 * one_day) 7
       \<lparr>entity_error = None,
        history = [photo_post 1 (5 * one_day), photo_post 2 (10 * one_day + 1000000)],
        breaks_off = None\<rparr>) = [Val 2]
   \<and> scrape_channel_at (\<lambda>i. 9) ''chemed'' (10 * one_day) 7
       \<lparr>entity_error = None, history = [photo_post 1 (5 * one_day)], breaks_off = None\<rparr> = []"
  using scrape_channel_at_after_end
      [of "\<lambda>i. 9" "''chemed''" "10 * one_day" 7
          "\<lparr>entity_error = None,
            history = [photo_post 1 (5 * one_day), photo_post 2 (10 * one_day + 1000000)],
            breaks_off = None\<rparr>"]
    scrape_channel_at_after_end
      [of "\<lambda>i. 9" "''chemed''" "10 * one_day" 7
          "\<lparr>entity_error = None, history = [photo_post 1 (5 * one_day)], breaks_off = None\<rparr>"]
  by (simp add: scrape_channel_at_def scrape_channel_window delivered_def iter_messages_def
      raises_def date_overflow_def start_date_def utc_offset_def datetime_min_def
      datetime_max_def process_message_def photo_post_def one_day_def)

subsection \<open>The lower bound of the window\<close>








subsection \<open>A pass that is rate limited\<close>











subsection \<open>Python text\<close>

lemma digit_char_cases:
  assumes "d < 10"
  shows "d \<in> {0, 1, 2, 3, 4, 5, 6, 7, 8, 9::nat}"
  using assms by auto

lemma of_char_digit_char: "d < 10 \<Longrightarrow> (of_char (digit_char d) :: nat) = 48 + d"
  by (drule digit_char_cases) (auto simp: digit_char_def)

lemma length_u: "length (u s) = length s"
  by (simp add: u_def)

lemma u_append: "u (s @ t) = u s @ u t"
  by (simp add: u_def)

lemma str_nat_small: "n < 10 \<Longrightarrow> str_nat n = [digit_char n]"
  by (subst str_nat.simps) simp

lemma str_nat_large: "\<not> n < 10 \<Longrightarrow> str_nat n = str_nat (n div 10) @ [digit_char (n mod 10)]"
  by (subst str_nat.simps) simp

lemma str_nat_digits: "list_all is_digit (u (str_nat n))"
proof (induction n rule: str_nat.induct)
  case (1 n)
  show ?case
  proof (cases "n < 10")
    case True
    then show ?thesis
      by (simp add: str_nat_small u_def of_char_digit_char is_digit_def)
  next
    case False
    have "n mod 10 < 10" by simp
    then have "is_digit (of_char (digit_char (n mod 10)))"
      by (simp only: of_char_digit_char) (simp add: is_digit_def)
    with 1 [OF False] False show ?thesis
      by (simp add: str_nat_large u_def)
  qed
qed

lemma str_nat_nonempty: "str_nat n \<noteq> []"
  by (subst str_nat.simps) simp

lemma length_str_nat: "length (str_nat n) \<le> Suc n"
proof (induction n rule: str_nat.induct)
  case (1 n)
  show ?case
  proof (cases "n < 10")
    case True
    then show ?thesis by (simp add: str_nat_small)
  next
    case False
    with 1 [OF False] show ?thesis by (simp add: str_nat_large)
  qed
qed

lemma str_ok_small: "\<bar>i\<bar> < 4300 \<Longrightarrow> str_ok i"
  using length_str_nat [of "nat \<bar>i\<bar>"] by (simp add: str_ok_def max_str_digits_def)

lemma digits_value_foldl:
  "list_all is_digit ds \<Longrightarrow>
     digits_value acc ds = Some (foldl (\<lambda>a c. 10 * a + (c - 48)) acc ds)"
  by (induction acc ds rule: digits_value.induct) auto

lemma foldl_str_nat: "foldl (\<lambda>a c. 10 * a + (c - 48)) 0 (u (str_nat n)) = n"
proof (induction n rule: str_nat.induct)
  case (1 n)
  show ?case
  proof (cases "n < 10")
    case True
    then show ?thesis
      by (simp add: str_nat_small u_def of_char_digit_char)
  next
    case False
    have s: "u (str_nat n) = u (str_nat (n div 10)) @ [of_char (digit_char (n mod 10))]"
      using False by (simp add: str_nat_large u_def)
    have d: "(of_char (digit_char (n mod 10)) :: nat) - 48 = n mod 10"
      by (simp add: of_char_digit_char)
    have "foldl (\<lambda>a c. 10 * a + (c - 48)) 0 (u (str_nat n))
        = 10 * foldl (\<lambda>a c. 10 * a + (c - 48)) 0 (u (str_nat (n div 10))) + n mod 10"
      unfolding s foldl_append by (simp only: foldl.simps d)
    also have "\<dots> = 10 * (n div 10) + n mod 10"
      using 1 [OF False] by (simp only:)
    also have "\<dots> = n" by simp
    finally show ?thesis .
  qed
qed

lemma u_str_nat_nonempty: "u (str_nat n) \<noteq> []"
  using str_nat_nonempty [of n] by (simp add: u_def)

lemma ascii_nat_str_nat:
  "length (str_nat n) \<le> max_str_digits \<Longrightarrow> ascii_nat (u (str_nat n)) = Some n"
  using u_str_nat_nonempty [of n]
  by (simp add: ascii_nat_def length_u digits_value_foldl str_nat_digits foldl_str_nat)

lemma digit_not_space: "is_digit c \<Longrightarrow> \<not> is_space c"
  by (simp add: is_digit_def is_space_def)

lemma strip_id:
  assumes "s \<noteq> []" and "\<not> is_space (hd s)" and "\<not> is_space (last s)"
  shows "strip s = s"
proof -
  from assms(1,2) have "dropWhile is_space s = s"
    by (cases s) auto
  moreover from assms(1,3) have "dropWhile is_space (rev s) = rev s"
    by (cases "rev s") (auto simp: last_rev [symmetric])
  ultimately show ?thesis by (simp add: strip_def)
qed

lemma digits_of_str_nat: "c \<in> set (u (str_nat n)) \<Longrightarrow> is_digit c"
  using str_nat_digits [of n] by (simp add: list_all_iff)

lemma strip_str_nat: "strip (u (str_nat n)) = u (str_nat n)"
proof (rule strip_id)
  show ne: "u (str_nat n) \<noteq> []" by (rule u_str_nat_nonempty)
  from ne show "\<not> is_space (hd (u (str_nat n)))"
    using hd_in_set digits_of_str_nat digit_not_space by blast
  from ne show "\<not> is_space (last (u (str_nat n)))"
    using last_in_set digits_of_str_nat digit_not_space by blast
qed

lemma minus_not_space: "\<not> is_space 45"
  by (simp add: is_space_def)

lemma strip_minus_str_nat: "strip (45 # u (str_nat n)) = 45 # u (str_nat n)"
proof (rule strip_id)
  show "45 # u (str_nat n) \<noteq> []" by simp
  show "\<not> is_space (hd (45 # u (str_nat n)))" by (simp add: minus_not_space)
  have "last (45 # u (str_nat n)) = last (u (str_nat n))"
    using u_str_nat_nonempty [of n] by simp
  moreover have "\<not> is_space (last (u (str_nat n)))"
    using u_str_nat_nonempty [of n] last_in_set digits_of_str_nat digit_not_space by blast
  ultimately show "\<not> is_space (last (45 # u (str_nat n)))" by simp
qed

lemma u_str_int:
  "u (str_int i) = (if i < 0 then 45 # u (str_nat (nat (- i))) else u (str_nat (nat i)))"
  by (simp add: str_int_def u_def)

lemma ascii_int_str_int:
  assumes "str_ok i"
  shows "ascii_int (u (str_int i)) = Some i"
proof (cases "i < 0")
  case True
  then have "nat \<bar>i\<bar> = nat (- i)" by simp
  with assms have "ascii_nat (u (str_nat (nat (- i)))) = Some (nat (- i))"
    by (simp add: str_ok_def ascii_nat_str_nat)
  with True show ?thesis
    by (simp add: ascii_int_def u_str_int strip_minus_str_nat)
next
  case False
  then have "nat \<bar>i\<bar> = nat i" by simp
  with assms have n: "ascii_nat (u (str_nat (nat i))) = Some (nat i)"
    by (simp add: str_ok_def ascii_nat_str_nat)
  obtain c cs where s: "u (str_nat (nat i)) = c # cs"
    using u_str_nat_nonempty [of "nat i"] by (cases "u (str_nat (nat i))") auto
  then have "is_digit c" using digits_of_str_nat [of c "nat i"] by simp
  then have "c \<noteq> 45" "c \<noteq> 43" by (auto simp: is_digit_def)
  moreover have "strip (u (str_int i)) = c # cs"
    using False s strip_str_nat [of "nat i"] by (simp add: u_str_int)
  ultimately show ?thesis
    using False n s by (simp add: ascii_int_def)
qed

lemma plain_newlines: "carriage_return \<notin> set s \<Longrightarrow> universal_newlines s = s"
  by (induction s rule: universal_newlines.induct) auto

lemma length_universal_newlines: "length (universal_newlines s) \<le> length s"
  by (induction s rule: universal_newlines.induct) auto

lemma nul_universal_newlines: "0 \<notin> set s \<Longrightarrow> 0 \<notin> set (universal_newlines s)"
  by (induction s rule: universal_newlines.induct) (auto simp: line_feed_def)

lemma digit_storable: "is_digit c \<Longrightarrow> c \<noteq> 0 \<and> scalar c \<and> c \<noteq> carriage_return"
  by (simp add: is_digit_def scalar_def carriage_return_def)

lemma minus_storable: "(45::nat) \<noteq> 0 \<and> scalar 45 \<and> 45 \<noteq> carriage_return"
  by (simp add: scalar_def carriage_return_def)

lemma str_int_chars:
  assumes "c \<in> set (u (str_int i))"
  shows "c \<noteq> 0 \<and> scalar c \<and> c \<noteq> carriage_return"
proof (cases "c = 45")
  case True
  then show ?thesis using minus_storable by simp
next
  case False
  with assms have "is_digit c"
    using digits_of_str_nat by (auto simp: u_str_int split: if_splits)
  then show ?thesis by (rule digit_storable)
qed

lemma length_str_int:
  assumes "str_ok i"
  shows "length (u (str_int i)) \<le> Suc max_str_digits"
proof (cases "i < 0")
  case True
  then have "nat \<bar>i\<bar> = nat (- i)" by simp
  with assms True show ?thesis by (simp add: str_ok_def u_str_int length_u)
next
  case False
  then have "nat \<bar>i\<bar> = nat i" by simp
  with assms False show ?thesis by (simp add: str_ok_def u_str_int length_u)
qed

lemma split_no_sep: "c \<notin> set x \<Longrightarrow> split c x = [x]"
  by (induction x) auto

lemma split_at_sep: "c \<notin> set x \<Longrightarrow> split c (x @ c # rest) = x # split c rest"
  by (induction x) auto

lemma split_join:
  assumes "xs \<noteq> []" and "\<forall>x \<in> set xs. c \<notin> set x"
  shows "split c (join [c] xs) = xs"
  using assms
proof (induction "[c]" xs rule: join.induct)
  case 1
  then show ?case by simp
next
  case (2 x)
  then show ?case by (simp add: split_no_sep)
next
  case (3 x y xs)
  then show ?case by (simp add: split_at_sep)
qed

subsection \<open>Detection results written and read back\<close>

lemma storable_chars: "storable s \<Longrightarrow> list_all scalar s \<and> 0 \<notin> set s"
  by (auto simp: storable_def list_all_iff)

lemma read_field_storable:
  assumes "storable s"
  shows "read_field nul_error s = Some (universal_newlines s)"
proof -
  from assms have "0 \<notin> set (universal_newlines s)"
    using storable_chars nul_universal_newlines by blast
  moreover from assms have "length (universal_newlines s) \<le> field_size_limit"
    using length_universal_newlines [of s] by (simp add: storable_def)
  ultimately show ?thesis by (simp add: read_field_def Let_def)
qed

lemma read_field_plain: "plain s \<Longrightarrow> read_field nul_error s = Some s"
  by (simp add: plain_def read_field_storable plain_newlines)

lemma plain_str_int:
  assumes "str_ok i"
  shows "plain (u (str_int i))"
proof -
  have "list_all (\<lambda>c. c \<noteq> 0 \<and> scalar c) (u (str_int i))"
    using str_int_chars [of _ i] by (simp add: list_all_iff)
  moreover have "length (u (str_int i)) \<le> field_size_limit"
    using length_str_int [OF assms] by (simp add: field_size_limit_def max_str_digits_def)
  moreover have "carriage_return \<notin> set (u (str_int i))"
    using str_int_chars [of carriage_return i] by blast
  ultimately show ?thesis by (simp add: plain_def storable_def)
qed

lemma list_item_strip: "list_item s \<Longrightarrow> strip s = s"
  by (simp add: list_item_def strip_id)

lemma parse_objects_items:
  assumes "list_all (\<lambda>d. list_item (det_class_name d) \<and> list_item (str_float (det_confidence d))
                      \<and> float_of (str_float (det_confidence d)) = Some (det_confidence d)) ds"
  shows "parse_objects float_of (map (\<lambda>d. (det_class_name d, str_float (det_confidence d))) ds)
           = Some (map (\<lambda>d. (det_class_name d, det_confidence d)) ds)"
  using assms
proof (induction ds)
  case Nil
  then show ?case by simp
next
  case (Cons d ds)
  then have "list_item (det_class_name d)" "list_item (str_float (det_confidence d))"
    "float_of (str_float (det_confidence d)) = Some (det_confidence d)"
    by simp_all
  moreover from this have "det_class_name d \<noteq> []" "str_float (det_confidence d) \<noteq> []"
    by (simp_all add: list_item_def)
  ultimately show ?case
    using Cons by (simp add: list_item_strip)
qed

lemma objects_round_trip:
  assumes "list_all (\<lambda>d. list_item (det_class_name d) \<and> list_item (str_float (det_confidence d))
                      \<and> float_of (str_float (det_confidence d)) = Some (det_confidence d)) ds"
  shows "parse_objects float_of
           (zip (split semicolon (join [semicolon] (map det_class_name ds)))
                (split semicolon (join [semicolon] (map str_float (map det_confidence ds)))))
           = Some (map (\<lambda>d. (det_class_name d, det_confidence d)) ds)"
proof (cases "ds = []")
  case True
  then show ?thesis by simp
next
  case False
  from assms have names: "\<forall>x \<in> set (map det_class_name ds). semicolon \<notin> set x"
    and texts: "\<forall>x \<in> set (map str_float (map det_confidence ds)). semicolon \<notin> set x"
    by (auto simp: list_all_iff list_item_def)
  from False have "split semicolon (join [semicolon] (map det_class_name ds)) = map det_class_name ds"
    using names by (intro split_join) simp_all
  moreover from False
  have "split semicolon (join [semicolon] (map str_float (map det_confidence ds)))
      = map str_float (map det_confidence ds)"
    using texts by (intro split_join) simp_all
  moreover have "zip (map det_class_name ds) (map str_float (map det_confidence ds))
      = map (\<lambda>d. (det_class_name d, str_float (det_confidence d))) ds"
    by (induction ds) simp_all
  ultimately show ?thesis
    using parse_objects_items [OF assms] by simp
qed

lemma header_read: "read_all (read_field nul_error) csv_header = Some csv_header"
  by (simp add: csv_header_def read_field_def u_def carriage_return_def line_feed_def
      field_size_limit_def)

lemma header_lookup:
  "map_of (dict_row csv_header [a, b, c, d, e, f, g, h, i]) (u ''message_id'') = Some (Some a)"
  "map_of (dict_row csv_header [a, b, c, d, e, f, g, h, i]) (u ''channel_name'') = Some (Some b)"
  "map_of (dict_row csv_header [a, b, c, d, e, f, g, h, i]) (u ''image_path'') = Some (Some d)"
  "map_of (dict_row csv_header [a, b, c, d, e, f, g, h, i]) (u ''detection_count'') = Some (Some e)"
  "map_of (dict_row csv_header [a, b, c, d, e, f, g, h, i]) (u ''image_category'') = Some (Some f)"
  "map_of (dict_row csv_header [a, b, c, d, e, f, g, h, i]) (u ''processing_time'') = Some (Some g)"
  "map_of (dict_row csv_header [a, b, c, d, e, f, g, h, i]) (u ''detected_objects'') = Some (Some h)"
  "map_of (dict_row csv_header [a, b, c, d, e, f, g, h, i]) (u ''confidence_scores'') = Some (Some i)"
  by (simp_all add: dict_row_def csv_header_def u_def)

lemma read_result_row:
  assumes "round_trips str_float float_of result"
  shows "read_all (read_field nul_error) (result_row str_float result)
           = Some [u (str_int (res_message_id result)), res_channel_name result,
              universal_newlines (res_filename result), res_image_path result,
              u (str_int (detection_count result)), image_category result,
              processing_time result,
              join [semicolon] (map det_class_name (detections result)),
              join [semicolon] (map str_float (map det_confidence (detections result)))]"
  using assms
  by (simp add: result_row_def Let_def round_trips_def read_field_plain read_field_storable
      plain_str_int del: map_map)

lemma parse_result_row:
  assumes "round_trips str_float float_of result"
  shows "parse_row float_of now
           (dict_row csv_header
              [u (str_int (res_message_id result)), res_channel_name result,
               universal_newlines (res_filename result), res_image_path result,
               u (str_int (detection_count result)), image_category result,
               processing_time result,
               join [semicolon] (map det_class_name (detections result)),
               join [semicolon] (map str_float (map det_confidence (detections result)))])
           = Some (expected_record result)"
proof -
  from assms have l: "list_all (\<lambda>d. list_item (det_class_name d) \<and> list_item (str_float (det_confidence d))
                      \<and> float_of (str_float (det_confidence d)) = Some (det_confidence d))
                   (detections result)"
    and ok: "str_ok (res_message_id result)" "str_ok (detection_count result)"
    by (simp_all add: round_trips_def)
  show ?thesis
    unfolding parse_row_def split_field_def int_field_def text_field_def row_get_def header_lookup
    by (simp add: objects_round_trip [OF l] ascii_int_str_int ok expected_record_def del: map_map)
qed

lemma read_all_map:
  assumes "\<forall>x \<in> set xs. f (g x) = Some (h x)"
  shows "read_all f (map g xs) = Some (map h xs)"
  using assms by (induction xs) simp_all

lemma dict_reader_rows:
  assumes "\<forall>x \<in> set xs. g x \<noteq> []"
  shows "dict_reader (h # map g xs) = map (\<lambda>x. dict_row h (g x)) xs"
proof -
  from assms have "filter (\<lambda>row. row \<noteq> []) (map g xs) = map g xs"
    by (induction xs) simp_all
  then show ?thesis by (simp add: dict_reader_def)
qed

lemma writable_round_trips:
  assumes "round_trips str_float float_of result"
  shows "writable str_float result"
proof -
  have p: "\<And>s. plain s \<Longrightarrow> list_all scalar s"
    using storable_chars by (simp add: plain_def)
  from assms show ?thesis
    by (simp add: writable_def round_trips_def result_row_def Let_def p plain_str_int
        storable_chars del: map_map)
qed

text \<open>
  C10, as the code has it. Let the message id and the detection count of every result
  have at most 4300 digits. Let the channel name, the image path, the category, the
  processing time, the class names joined by semicolons and the printed confidences so
  joined each hold at most 131072 characters and neither a carriage return, nor a NUL
  character, nor a character that UTF-8 cannot encode; let the file name be such a text
  too, carriage returns apart. Let every class name and every confidence, as \<open>str\<close> prints
  it, be not empty, free of semicolons and of whitespace at either end, the whitespace
  of Unicode, and let \<open>float\<close> read the printed confidence back. Then writing the results
  with the classifier's CSV writer and reading the file with the loader's CSV reader
  yields, result by result, the record with the same message id, channel name, image
  path, detection count, category and processing time, and with the object names and
  confidences in their order; an empty detection list comes back empty.
\<close>

theorem csv_round_trip:
  assumes "\<forall>result \<in> set results. round_trips str_float float_of result"
  shows "load_csv_results nul_error float_of now (Some (save_results_csv str_float results))
           = map expected_record results"
proof -
  let ?read = "\<lambda>result.
      [u (str_int (res_message_id result)), res_channel_name result,
       universal_newlines (res_filename result), res_image_path result,
       u (str_int (detection_count result)), image_category result,
       processing_time result,
       join [semicolon] (map det_class_name (detections result)),
       join [semicolon] (map str_float (map det_confidence (detections result)))]"
  from assms have "\<forall>result \<in> set results. writable str_float result"
    using writable_round_trips by blast
  then have "takeWhile (writable str_float) results = results"
    by (simp add: takeWhile_eq_all_conv)
  then have written: "save_results_csv str_float results
      = csv_header # map (result_row str_float) results"
    by (simp only: save_results_csv_def)
  have "\<forall>result \<in> set results.
      read_all (read_field nul_error) (result_row str_float result) = Some (?read result)"
    using assms read_result_row by blast
  then have "read_all (read_all (read_field nul_error)) (map (result_row str_float) results)
      = Some (map ?read results)"
    by (rule read_all_map)
  then have "read_rows nul_error (save_results_csv str_float results)
      = Some (csv_header # map ?read results)"
    by (simp add: read_rows_def written header_read del: map_map)
  moreover have "dict_reader (csv_header # map ?read results)
      = map (\<lambda>result. dict_row csv_header (?read result)) results"
    by (rule dict_reader_rows) simp
  moreover have "read_all (parse_row float_of now)
        (map (\<lambda>result. dict_row csv_header (?read result)) results)
      = Some (map expected_record results)"
  proof (rule read_all_map)
    show "\<forall>result \<in> set results.
        parse_row float_of now (dict_row csv_header (?read result)) = Some (expected_record result)"
      using assms parse_result_row by blast
  qed
  ultimately show ?thesis
    by (simp add: load_csv_results_def del: map_map)
qed

theorem csv_round_trip_witness:
  "load_csv_results True Some (u ''2024-01-02T00:00:00'')
       (Some (save_results_csv (\<lambda>c. c) [bottle_and_person, nothing_detected]))
     = [\<lparr>rec_message_id = 12, rec_channel_name = Some (u ''chemed''),
         rec_image_path = Some (u ''data/raw/images/chemed/12.jpg''),
         detected_objects = [(u ''bottle'', u ''0.87''), (u ''person'', u ''0.5'')],
         rec_detection_count = 2, rec_image_category = Some (u ''promotional''),
         processing_date = Some (u ''2024-01-01T02:00:00'')\<rparr>,
        \<lparr>rec_message_id = 13, rec_channel_name = Some (u ''chemed''),
         rec_image_path = Some (u ''data/raw/images/chemed/13.jpg''),
         detected_objects = [],
         rec_detection_count = 0, rec_image_category = Some (u ''other''),
         processing_date = Some (u ''2024-01-01T02:00:01'')\<rparr>]"
  using csv_round_trip
    [of "[bottle_and_person, nothing_detected]" "\<lambda>c. c" Some True "u ''2024-01-02T00:00:00''"]
  by (simp add: round_trips_def plain_def storable_def list_item_def scalar_def
      carriage_return_def semicolon_def field_size_limit_def is_space_def str_ok_small
      bottle_and_person_def nothing_detected_def expected_record_def u_def)

text \<open>
  The claim as the specification states it fails for class names that hold no semicolon
  but are empty or begin with whitespace: the blank is stripped from the name, and the
  detection with the empty name is dropped. The no-break space is stripped too.
\<close>

theorem csv_odd_names_counterexample:
  "map detected_objects
     (load_csv_results True Some (u ''2024-01-02T00:00:00'')
        (Some (save_results_csv (\<lambda>c. c) [odd_names, no_break_space_name])))
     = [[(u ''cup'', u ''0.9'')], [(u ''cup'', u ''0.9'')]]
   \<and> map (\<lambda>d. (det_class_name d, det_confidence d)) (detections odd_names)
     = [(u '' cup'', u ''0.9''), ([], u ''0.4'')]
   \<and> map (\<lambda>d. (det_class_name d, det_confidence d)) (detections no_break_space_name)
     = [(0xA0 # u ''cup'', u ''0.9'')]"
  by (simp add: load_csv_results_def save_results_csv_def writable_def result_row_def
      str_ok_small read_rows_def read_field_def dict_reader_def dict_row_def csv_header_def
      parse_row_def split_field_def int_field_def text_field_def row_get_def ascii_int_def
      ascii_nat_def max_str_digits_def strip_def is_space_def is_digit_def str_int_def
      str_nat.simps digit_char_def scalar_def carriage_return_def line_feed_def semicolon_def
      field_size_limit_def odd_names_def no_break_space_name_def u_def)

end
